theory Spec2Isabelle
  imports Complex_Main
begin

section \<open>The vector layer of openglobus: data model\<close>

text \<open>
  The file \<^verbatim>\<open>src/og/layer/vector.js\<close> defines \<^verbatim>\<open>og.layer.Vector\<close>, the per-layer
  spatial index.  JavaScript objects are shared and mutated in place, so the model keeps
  them in a store: entities, quad-tree nodes and entity collections are addressed by
  references, and every object field is a field of the record stored at that reference.
  A JavaScript reference always denotes an object, so the stores are total; \<^verbatim>\<open>null\<close> and
  \<^verbatim>\<open>undefined\<close> are \<open>None\<close>.  Numbers that hold coordinates and zoom levels are reals,
  counters are integers.  A leading underscore of a source name is dropped
  (\<^verbatim>\<open>_entities\<close> is \<open>entities\<close>).
\<close>

type_synonym ref = nat

datatype error = TypeError

datatype event = entityadd | entityremove

record LonLat =
  lon :: real
  lat :: real

record Extent =
  southWest :: LonLat
  northEast :: LonLat

text \<open>The fields of \<^verbatim>\<open>og.Entity\<close> that the layer reads and writes.\<close>

record Entity =
  entity_id :: nat
  lineString :: bool
  lonlat :: "LonLat option"
  cartesian :: "(real \<times> real \<times> real) option"
  vectorLayer :: "nat option"
  vectorLayerIndex :: int
  entity_entityCollection :: "ref option"
  nodePtr :: "ref option"

text \<open>The fields of a quad-tree node that the layer reads and writes.\<close>

record QuadNode =
  nodeId :: nat
  count :: int
  parentNode :: "ref option"
  deferredEntities :: "ref list"
  entityCollection :: "ref option"
  inTheQueue :: bool

record Planet =
  maxCurrZoom :: real
  visibleNodes :: "nat list"
  visibleNodesNorth :: "nat list"
  visibleNodesSouth :: "nat list"

text \<open>
  The layer object together with the store.  \<open>layer_id\<close>, \<open>visibility\<close>, \<open>minZoom\<close>,
  \<open>maxZoom\<close>, \<open>planet\<close> and \<open>extent\<close> are the fields of the base class
  \<^verbatim>\<open>og.layer.Layer\<close> that \<^verbatim>\<open>vector.js\<close> uses.  \<open>layer\<close> is the property \<^verbatim>\<open>this.layer\<close>,
  which \<^verbatim>\<open>add\<close> reads: \<open>None\<close> is \<^verbatim>\<open>undefined\<close>, \<open>Some p\<close> an object whose
  \<^verbatim>\<open>_planet\<close> is \<open>p\<close>.  \<open>events\<close> is the log of the events dispatched so far, and
  \<open>timers\<close> the callbacks handed to \<^verbatim>\<open>setTimeout\<close> that have not run yet, each with
  the node it closes over, oldest first.  \<^verbatim>\<open>og.QueueArray\<close> is an array with \<^verbatim>\<open>push\<close>
  at the end and \<^verbatim>\<open>pop\<close> from the end.
\<close>

record world =
  layer_id :: nat
  visibility :: bool
  minZoom :: real
  maxZoom :: real
  planet :: "Planet option"
  layer :: "Planet option option"
  extent :: Extent
  entities :: "ref list"
  entityCollectionAlways :: ref
  entityCollectionsTree :: "ref option"
  entityCollectionsTreeNorth :: "ref option"
  entityCollectionsTreeSouth :: "ref option"
  renderingNodes :: "nat set"
  renderingNodesNorth :: "nat set"
  renderingNodesSouth :: "nat set"
  secondPASS :: "ref list"
  counter :: int
  deferredEntitiesPendingQueue :: "ref list"
  events :: "(event \<times> ref) list"
  timers :: "ref list"
  ents :: "ref \<Rightarrow> Entity"
  nodes :: "ref \<Rightarrow> QuadNode"
  colls :: "ref \<Rightarrow> ref list"
  next_ref :: ref

text \<open>
  The quad-tree node class, the ellipsoid and \<^verbatim>\<open>og.mercator\<close> are not part of
  \<^verbatim>\<open>vector.js\<close>.  Their methods and constants are parameters of the model: whatever they
  do, they do it to the store.  A tree walk returns the collections it pushes onto the
  output array.
\<close>

record ops =
  MAX_LAT :: real
  MIN_LAT :: real
  cartesianToLonLat :: "(real \<times> real \<times> real) option \<Rightarrow> LonLat"
  insertEntity :: "ref \<Rightarrow> ref \<Rightarrow> bool \<Rightarrow> world \<Rightarrow> error + world"
  buildTree :: "ref \<Rightarrow> ref list \<Rightarrow> world \<Rightarrow> error + world"
  collectRenderCollections :: "ref \<Rightarrow> nat list \<Rightarrow> world \<Rightarrow> error + (ref list \<times> world)"
  collectRenderCollectionsPASS2 ::
    "ref \<Rightarrow> nat list \<Rightarrow> nat \<Rightarrow> world \<Rightarrow> error + (ref list \<times> world)"
  applyCollection :: "ref \<Rightarrow> world \<Rightarrow> error + world"
  isVisible :: "ref \<Rightarrow> world \<Rightarrow> bool"

section \<open>The deferred scheduler\<close>

text \<open>\<^verbatim>\<open>_execDeferredNode\<close>: count the build as in flight and hand it to \<^verbatim>\<open>setTimeout\<close>.\<close>

definition execDeferredNode :: "ref \<Rightarrow> world \<Rightarrow> world" where
  "execDeferredNode node w = w\<lparr>counter := counter w + 1, timers := timers w @ [node]\<rparr>"

text \<open>\<^verbatim>\<open>_queueDeferredNode\<close>.\<close>

definition queueDeferredNode :: "ref \<Rightarrow> world \<Rightarrow> world" where
  "queueDeferredNode node w =
     (if visibility w then
        let w1 = w\<lparr>nodes := (nodes w)(node := (nodes w node)\<lparr>inTheQueue := True\<rparr>)\<rparr>
        in if counter w1 \<ge> 1
           then w1\<lparr>deferredEntitiesPendingQueue := deferredEntitiesPendingQueue w1 @ [node]\<rparr>
           else execDeferredNode node w1
      else w)"

text \<open>\<^verbatim>\<open>_whilePendings\<close>: the loop runs while the backlog is not empty.\<close>

function whilePendings :: "ops \<Rightarrow> world \<Rightarrow> ref option \<times> world" where
  "whilePendings c w =
     (if deferredEntitiesPendingQueue w \<noteq> [] then
        let node = last (deferredEntitiesPendingQueue w);
            w1 = w\<lparr>deferredEntitiesPendingQueue := butlast (deferredEntitiesPendingQueue w)\<rparr>;
            w2 = w1\<lparr>nodes := (nodes w1)(node := (nodes w1 node)\<lparr>inTheQueue := False\<rparr>)\<rparr>
        in if isVisible c node w2 then (Some node, w2) else whilePendings c w2
      else (None, w))"
  by pat_completeness auto
termination
  by (relation "measure (\<lambda>(c, w). length (deferredEntitiesPendingQueue w))") auto

text \<open>\<^verbatim>\<open>_dequeueRequest\<close>.\<close>

definition dequeueRequest :: "ops \<Rightarrow> world \<Rightarrow> world" where
  "dequeueRequest c w =
     (let w1 = w\<lparr>counter := counter w - 1\<rparr>
      in if deferredEntitiesPendingQueue w1 \<noteq> [] \<and> counter w1 < 1 then
           (case whilePendings c w1 of
              (Some node, w2) \<Rightarrow> execDeferredNode node w2
            | (None, w2) \<Rightarrow> w2)
         else w1)"

text \<open>The callback that \<^verbatim>\<open>_execDeferredNode\<close> hands to \<^verbatim>\<open>setTimeout\<close>.\<close>

definition timeoutCallback :: "ops \<Rightarrow> ref \<Rightarrow> world \<Rightarrow> error + world" where
  "timeoutCallback c node w =
     (case applyCollection c node w of
        Inl e \<Rightarrow> Inl e
      | Inr w1 \<Rightarrow> Inr (dequeueRequest c w1))"

section \<open>Collaborating classes\<close>

text \<open>
  Modelled from the spec: \<^verbatim>\<open>og.EntityCollection\<close> is not part of \<^verbatim>\<open>vector.js\<close>.  The spec
  describes a collection as a bucket of entities, each entity holding a back-reference to
  the one collection it belongs to, and an entity never belongs to more than one
  collection.  \<^verbatim>\<open>add\<close> puts an entity that has no collection into the bucket and sets the
  back-reference; \<^verbatim>\<open>_removeEntitySilent\<close> takes it out and clears the back-reference.
\<close>

definition EntityCollection_add :: "ref \<Rightarrow> ref \<Rightarrow> world \<Rightarrow> world" where
  "EntityCollection_add col entity w =
     (if entity_entityCollection (ents w entity) = None then
        w\<lparr>colls := (colls w)(col := colls w col @ [entity]),
          ents := (ents w)(entity := (ents w entity)\<lparr>entity_entityCollection := Some col\<rparr>)\<rparr>
      else w)"

definition removeEntitySilent :: "ref \<Rightarrow> ref \<Rightarrow> world \<Rightarrow> world" where
  "removeEntitySilent col entity w =
     w\<lparr>colls := (colls w)(col := removeAll entity (colls w col)),
       ents := (ents w)(entity := (ents w entity)\<lparr>entity_entityCollection := None\<rparr>)\<rparr>"

text \<open>
  Modelled from the spec: the constructor of the quad-tree node class is not part of
  \<^verbatim>\<open>vector.js\<close>.  By the spec a node holds a parent back-reference, a collection that is
  null until it is materialized, a buffer of deferred entities, a count and an in-queue
  flag; a new node is empty.
\<close>

definition newQuadNode :: "ref option \<Rightarrow> nat \<Rightarrow> world \<Rightarrow> ref \<times> world" where
  "newQuadNode parent nid w =
     (next_ref w,
      w\<lparr>nodes := (nodes w)(next_ref w :=
           \<lparr>nodeId = nid, count = 0, parentNode = parent, deferredEntities = [],
            entityCollection = None, inTheQueue = False\<rparr>),
        next_ref := next_ref w + 1\<rparr>)"

section \<open>Adding entities\<close>

text \<open>\<^verbatim>\<open>_fitExtent\<close>: four tests in a row, each on the extent as the tests before left it.\<close>

definition fitExtent :: "ref \<Rightarrow> world \<Rightarrow> error + world" where
  "fitExtent entity w =
     (case lonlat (ents w entity) of
        None \<Rightarrow> Inl TypeError
      | Some ll \<Rightarrow>
          let x0 = extent w;
              x1 = (if lon ll > lon (northEast x0)
                    then x0\<lparr>northEast := (northEast x0)\<lparr>lon := lon ll\<rparr>\<rparr> else x0);
              x2 = (if lat ll > lat (northEast x1)
                    then x1\<lparr>northEast := (northEast x1)\<lparr>lat := lat ll\<rparr>\<rparr> else x1);
              x3 = (if lon ll < lon (southWest x2)
                    then x2\<lparr>southWest := (southWest x2)\<lparr>lon := lon ll\<rparr>\<rparr> else x2);
              x4 = (if lat ll < lat (southWest x3)
                    then x3\<lparr>southWest := (southWest x3)\<lparr>lat := lat ll\<rparr>\<rparr> else x3)
          in Inr (w\<lparr>extent := x4\<rparr>))"

text \<open>
  \<^verbatim>\<open>add\<close>.  An entity without \<^verbatim>\<open>_lonlat\<close> gets one from
  \<^verbatim>\<open>this.layer._planet.ellipsoid\<close>: reading a property of \<^verbatim>\<open>undefined\<close> or \<^verbatim>\<open>null\<close>
  raises a TypeError, and so does calling \<^verbatim>\<open>insertEntity\<close> on a tree that is null.
\<close>

definition add :: "ops \<Rightarrow> ref \<Rightarrow> bool \<Rightarrow> world \<Rightarrow> error + world" where
  "add c entity rightNow w =
     (if \<not> (vectorLayer (ents w entity) \<noteq> None \<or> entity_entityCollection (ents w entity) \<noteq> None)
      then
        let w1 = w\<lparr>ents := (ents w)(entity := (ents w entity)
                    \<lparr>vectorLayer := Some (layer_id w),
                     vectorLayerIndex := int (length (entities w))\<rparr>)\<rparr>;
            w2 = w1\<lparr>entities := entities w1 @ [entity]\<rparr>
        in case
             (if lineString (ents w2 entity) then
                Inr (EntityCollection_add (entityCollectionAlways w2) entity w2)
              else if planet w2 \<noteq> None then
                (case
                   (if lonlat (ents w2 entity) = None then
                      (case layer w2 of
                         None \<Rightarrow> Inl TypeError
                       | Some None \<Rightarrow> Inl TypeError
                       | Some (Some p) \<Rightarrow>
                           Inr (w2\<lparr>ents := (ents w2)(entity := (ents w2 entity)
                                  \<lparr>lonlat := Some (cartesianToLonLat c
                                      (cartesian (ents w2 entity)))\<rparr>)\<rparr>))
                    else Inr w2)
                 of Inl e \<Rightarrow> Inl e
                  | Inr w3 \<Rightarrow>
                 (case fitExtent entity w3 of
                    Inl e \<Rightarrow> Inl e
                  | Inr w4 \<Rightarrow>
                 (case lonlat (ents w4 entity) of
                    None \<Rightarrow> Inl TypeError
                  | Some ll \<Rightarrow>
                      if lat ll > MAX_LAT c then
                        (case entityCollectionsTreeNorth w4 of
                           None \<Rightarrow> Inl TypeError
                         | Some t \<Rightarrow> insertEntity c t entity rightNow w4)
                      else if lat ll < MIN_LAT c then
                        (case entityCollectionsTreeSouth w4 of
                           None \<Rightarrow> Inl TypeError
                         | Some t \<Rightarrow> insertEntity c t entity rightNow w4)
                      else
                        (case entityCollectionsTree w4 of
                           None \<Rightarrow> Inl TypeError
                         | Some t \<Rightarrow> insertEntity c t entity rightNow w4))))
              else Inr w2)
           of Inl e \<Rightarrow> Inl e
            | Inr w5 \<Rightarrow> Inr (w5\<lparr>events := events w5 @ [(entityadd, entity)]\<rparr>)
      else Inr w)"

text \<open>
  A sequence of \<^verbatim>\<open>add\<close> calls, each with its entity and its \<^verbatim>\<open>rightNow\<close> flag, in
  order; the first exception ends it.
\<close>

fun add_seq :: "ops \<Rightarrow> (ref \<times> bool) list \<Rightarrow> world \<Rightarrow> error + world" where
  "add_seq c [] w = Inr w"
| "add_seq c ((e, rightNow) # calls) w =
     (case add c e rightNow w of Inl x \<Rightarrow> Inl x | Inr w' \<Rightarrow> add_seq c calls w')"

text \<open>
  The end of \<^verbatim>\<open>add\<close> for an entity it routes to the tree with root \<open>t\<close>: the call of
  \<^verbatim>\<open>insertEntity\<close> on that root, then the \<^verbatim>\<open>entityadd\<close> event.
\<close>

definition insert_then_dispatch :: "ops \<Rightarrow> ref \<Rightarrow> ref \<Rightarrow> bool \<Rightarrow> world \<Rightarrow> error + world" where
  "insert_then_dispatch c t entity rightNow w =
     (case insertEntity c t entity rightNow w of
        Inl x \<Rightarrow> Inl x
      | Inr w5 \<Rightarrow> Inr (w5\<lparr>events := events w5 @ [(entityadd, entity)]\<rparr>))"

section \<open>Removing entities\<close>

text \<open>\<^verbatim>\<open>Array.prototype.splice(start, 1)\<close>: a negative start counts from the end.\<close>

definition splice1 :: "int \<Rightarrow> 'a list \<Rightarrow> 'a list" where
  "splice1 start xs =
     (let n = int (length xs);
          s = (if start < 0 then max (n + start) 0 else min start n)
      in take (nat s) xs @ drop (nat s + 1) xs)"

text \<open>
  \<^verbatim>\<open>_reindexEntitiesArray\<close>.  A negative start index is below the length, so the loop
  body runs and writes a property of \<^verbatim>\<open>e[startIndex]\<close>, which is \<^verbatim>\<open>undefined\<close>.
\<close>

function reindexFrom :: "nat \<Rightarrow> world \<Rightarrow> world" where
  "reindexFrom i w =
     (if i < length (entities w) then
        reindexFrom (Suc i)
          (w\<lparr>ents := (ents w)(entities w ! i :=
                (ents w (entities w ! i))\<lparr>vectorLayerIndex := int i\<rparr>)\<rparr>)
      else w)"
  by pat_completeness auto
termination
  by (relation "measure (\<lambda>(i, w). length (entities w) - i)") auto

definition reindexEntitiesArray :: "int \<Rightarrow> world \<Rightarrow> error + world" where
  "reindexEntitiesArray startIndex w =
     (if startIndex < 0 then Inl TypeError else Inr (reindexFrom (nat startIndex) w))"

text \<open>
  The loop \<^verbatim>\<open>while (node) { node.count--; node = node.parentNode; }\<close>.  It ends when the
  parent chain does; on a chain that never reaches null it does not return.
\<close>

partial_function (option) decrementCounts ::
  "ref option \<Rightarrow> (ref \<Rightarrow> QuadNode) \<Rightarrow> (ref \<Rightarrow> QuadNode) option" where
  "decrementCounts node ns =
     (case node of
        None \<Rightarrow> Some ns
      | Some n \<Rightarrow>
          decrementCounts (parentNode (ns n)) (ns(n := (ns n)\<lparr>count := count (ns n) - 1\<rparr>)))"

text \<open>
  The search \<^verbatim>\<open>while (j--) if (defEntities[j].id === entity.id)\<close>: the index found, from
  the end of the buffer.
\<close>

primrec scanDeferred :: "(ref \<Rightarrow> Entity) \<Rightarrow> nat \<Rightarrow> ref list \<Rightarrow> nat \<Rightarrow> nat option" where
  "scanDeferred es target defEntities 0 = None"
| "scanDeferred es target defEntities (Suc j) =
     (if entity_id (es (defEntities ! j)) = target then Some j
      else scanDeferred es target defEntities j)"

text \<open>
  \<^verbatim>\<open>removeEntity\<close>.  The result is \<open>None\<close> when the call does not return.
  Modelled from the spec: \<^verbatim>\<open>isEqual\<close> of the base class is not part of \<^verbatim>\<open>vector.js\<close>;
  by the spec the call is a no-op unless the entity is owned by this index.
\<close>

definition removeEntity :: "ref \<Rightarrow> world \<Rightarrow> (error + world) option" where
  "removeEntity entity w =
     (if vectorLayer (ents w entity) \<noteq> None \<and> vectorLayer (ents w entity) = Some (layer_id w)
      then
        let idx = vectorLayerIndex (ents w entity);
            w1 = w\<lparr>entities := splice1 idx (entities w)\<rparr>
        in case reindexEntitiesArray idx w1 of
             Inl e \<Rightarrow> Some (Inl e)
           | Inr w2 \<Rightarrow>
             let w3 = w2\<lparr>ents := (ents w2)(entity := (ents w2 entity)
                          \<lparr>vectorLayer := None, vectorLayerIndex := - 1\<rparr>)\<rparr>;
                 ptr = nodePtr (ents w3 entity)
             in case
                  (case entity_entityCollection (ents w3 entity) of
                     Some col \<Rightarrow>
                       let w4 = removeEntitySilent col entity w3
                       in (case decrementCounts ptr (nodes w4) of
                             None \<Rightarrow> None
                           | Some ns \<Rightarrow>
                               let w5 = w4\<lparr>nodes := ns\<rparr>
                               in Some
                                 (case ptr of
                                    None \<Rightarrow> w5
                                  | Some n \<Rightarrow>
                                      if count (nodes w5 n) = 0 \<and>
                                         deferredEntities (nodes w5 n) = []
                                      then w5\<lparr>nodes := (nodes w5)(n :=
                                             (nodes w5 n)\<lparr>entityCollection := None\<rparr>)\<rparr>
                                      else w5))
                   | None \<Rightarrow>
                       (case ptr of
                          None \<Rightarrow> Some w3
                        | Some n \<Rightarrow>
                            if deferredEntities (nodes w3 n) \<noteq> [] then
                              let defEntities = deferredEntities (nodes w3 n)
                              in (case scanDeferred (ents w3) (entity_id (ents w3 entity))
                                         defEntities (length defEntities) of
                                    None \<Rightarrow> Some w3
                                  | Some j \<Rightarrow>
                                      let ns1 = (nodes w3)(n := (nodes w3 n)
                                                  \<lparr>deferredEntities := splice1 (int j) defEntities\<rparr>)
                                      in (case decrementCounts (Some n) ns1 of
                                            None \<Rightarrow> None
                                          | Some ns \<Rightarrow> Some (w3\<lparr>nodes := ns\<rparr>)))
                            else Some w3))
                of None \<Rightarrow> None
                 | Some w6 \<Rightarrow>
                     let w7 = w6\<lparr>ents := (ents w6)(entity := (ents w6 entity)\<lparr>nodePtr := None\<rparr>)\<rparr>
                     in Some (Inr (w7\<lparr>events := events w7 @ [(entityremove, entity)]\<rparr>))
      else Some (Inr w))"

section \<open>Replacing the entity set\<close>

text \<open>\<^verbatim>\<open>clear\<close>: the body is a TODO comment.\<close>

definition clear :: "world \<Rightarrow> world" where
  "clear w = w"

text \<open>
  The loop of \<^verbatim>\<open>_buildEntityCollectionsTree\<close> over \<^verbatim>\<open>this._entities\<close>: line strings go to
  the always-collection, the others to the local array \<^verbatim>\<open>entities\<close>.
\<close>

fun splitLineStrings :: "ref list \<Rightarrow> ref list \<Rightarrow> world \<Rightarrow> ref list \<times> world" where
  "splitLineStrings [] acc w = (acc, w)"
| "splitLineStrings (ei # rest) acc w =
     (if lineString (ents w ei)
      then splitLineStrings rest acc (EntityCollection_add (entityCollectionAlways w) ei w)
      else splitLineStrings rest (acc @ [ei]) w)"

text \<open>\<^verbatim>\<open>_buildEntityCollectionsTree\<close>.\<close>

definition buildEntityCollectionsTree :: "ops \<Rightarrow> world \<Rightarrow> error + world" where
  "buildEntityCollectionsTree c w =
     (let w1 = w\<lparr>extent := \<lparr>southWest = \<lparr>lon = 180, lat = 90\<rparr>,
                            northEast = \<lparr>lon = - 180, lat = - 90\<rparr>\<rparr>\<rparr>
      in if planet w1 \<noteq> None then
           let (t, w2) = newQuadNode None 0 w1;
               w3 = w2\<lparr>entityCollectionsTree := Some t\<rparr>;
               (tn, w4) = newQuadNode None 0 w3;
               w5 = w4\<lparr>entityCollectionsTreeNorth := Some tn\<rparr>;
               (ts, w6) = newQuadNode None 0 w5;
               w7 = w6\<lparr>entityCollectionsTreeSouth := Some ts\<rparr>;
               (es, w8) = splitLineStrings (entities w7) [] w7
           in (case entityCollectionsTree w8 of
                 None \<Rightarrow> Inl TypeError
               | Some r \<Rightarrow>
              (case buildTree c r es w8 of
                 Inl e \<Rightarrow> Inl e
               | Inr w9 \<Rightarrow>
              (case entityCollectionsTreeNorth w9 of
                 None \<Rightarrow> Inl TypeError
               | Some rn \<Rightarrow>
              (case buildTree c rn es w9 of
                 Inl e \<Rightarrow> Inl e
               | Inr w10 \<Rightarrow>
              (case entityCollectionsTreeSouth w10 of
                 None \<Rightarrow> Inl TypeError
               | Some rs \<Rightarrow> buildTree c rs es w10)))))
         else Inr w1)"

text \<open>
  The loop of \<^verbatim>\<open>setEntities\<close>, \<^verbatim>\<open>while (i--)\<close> from the length of the array: an entity
  that has no layer yet gets this one and its position in the array.
\<close>

primrec markEntities :: "ref list \<Rightarrow> nat \<Rightarrow> world \<Rightarrow> world" where
  "markEntities es 0 w = w"
| "markEntities es (Suc i) w =
     markEntities es i
       (if vectorLayer (ents w (es ! i)) = None
        then w\<lparr>ents := (ents w)(es ! i := (ents w (es ! i))
                 \<lparr>vectorLayer := Some (layer_id w), vectorLayerIndex := int i\<rparr>)\<rparr>
        else w)"

text \<open>\<^verbatim>\<open>setEntities\<close>.\<close>

definition setEntities :: "ops \<Rightarrow> ref list \<Rightarrow> world \<Rightarrow> error + world" where
  "setEntities c es w =
     (let w1 = clear w;
          w2 = w1\<lparr>entities := es\<rparr>;
          w3 = markEntities es (length es) w2
      in buildEntityCollectionsTree c w3)"

section \<open>Construction and attachment\<close>

text \<open>
  The constructor.  The base class is not part of \<^verbatim>\<open>vector.js\<close>; the layer's identity,
  its visibility and zoom range (by the constructor's documentation true, 0 and 50 unless
  the options say otherwise) are arguments.  The layer starts without a planet, and
  nothing in \<^verbatim>\<open>vector.js\<close> assigns \<^verbatim>\<open>this.layer\<close>.  \<open>es\<close> is the store of the
  entities that exist when the layer is made.
\<close>

definition Vector ::
  "ops \<Rightarrow> nat \<Rightarrow> bool \<Rightarrow> real \<Rightarrow> real \<Rightarrow> ref list \<Rightarrow> (ref \<Rightarrow> Entity) \<Rightarrow> error + world" where
  "Vector c lid vis minZ maxZ optEntities es =
     buildEntityCollectionsTree c
       \<lparr>layer_id = lid, visibility = vis, minZoom = minZ, maxZoom = maxZ,
        planet = None, layer = None,
        extent = \<lparr>southWest = \<lparr>lon = 0, lat = 0\<rparr>, northEast = \<lparr>lon = 0, lat = 0\<rparr>\<rparr>,
        entities = optEntities,
        entityCollectionAlways = 0,
        entityCollectionsTree = None,
        entityCollectionsTreeNorth = None,
        entityCollectionsTreeSouth = None,
        renderingNodes = {}, renderingNodesNorth = {}, renderingNodesSouth = {},
        secondPASS = [],
        counter = 0,
        deferredEntitiesPendingQueue = [],
        events = [],
        timers = [],
        ents = es,
        nodes = (\<lambda>r. \<lparr>nodeId = 0, count = 0, parentNode = None, deferredEntities = [],
                       entityCollection = None, inTheQueue = False\<rparr>),
        colls = (\<lambda>r. []),
        next_ref = 1\<rparr>"

text \<open>\<^verbatim>\<open>addTo\<close>: the base class's \<^verbatim>\<open>_assignPlanet\<close> sets \<^verbatim>\<open>_planet\<close>.\<close>

definition addTo :: "ops \<Rightarrow> Planet \<Rightarrow> world \<Rightarrow> error + world" where
  "addTo c p w = buildEntityCollectionsTree c (w\<lparr>planet := Some p\<rparr>)"

section \<open>The visible collections of a frame\<close>

text \<open>
  The second pass, \<^verbatim>\<open>while (i--)\<close> from the length of \<^verbatim>\<open>_secondPASS\<close>: the array and
  the planet's visible nodes are read again at every step, and an index the array no
  longer has gives \<^verbatim>\<open>undefined\<close>.  \<open>sel\<close> is the planet's field the walk reads
  (\<^verbatim>\<open>_visibleNodes\<close>, \<^verbatim>\<open>_visibleNodesNorth\<close> or \<^verbatim>\<open>_visibleNodesSouth\<close>).
\<close>

primrec collectPASS2 ::
  "ops \<Rightarrow> (Planet \<Rightarrow> nat list) \<Rightarrow> nat \<Rightarrow> ref list \<Rightarrow> world \<Rightarrow> error + (ref list \<times> world)" where
  "collectPASS2 c sel 0 outArr w = Inr (outArr, w)"
| "collectPASS2 c sel (Suc i) outArr w =
     (if i < length (secondPASS w) then
        (case planet w of
           None \<Rightarrow> Inl TypeError
         | Some p \<Rightarrow>
        (case collectRenderCollectionsPASS2 c (secondPASS w ! i) (sel p)
                (nodeId (nodes w (secondPASS w ! i))) w of
           Inl e \<Rightarrow> Inl e
         | Inr (cs, w') \<Rightarrow> collectPASS2 c sel i (outArr @ cs) w'))
      else Inl TypeError)"

text \<open>One tree's share of \<^verbatim>\<open>_collectVisibleCollections\<close>: the source has it three times.\<close>

definition collectTree ::
  "ops \<Rightarrow> (world \<Rightarrow> ref option) \<Rightarrow> (Planet \<Rightarrow> nat list) \<Rightarrow> ref list \<Rightarrow> world
     \<Rightarrow> error + (ref list \<times> world)" where
  "collectTree c tree sel outArr w =
     (let w1 = w\<lparr>secondPASS := []\<rparr>
      in case tree w1 of
           None \<Rightarrow> Inl TypeError
         | Some t \<Rightarrow>
        (case planet w1 of
           None \<Rightarrow> Inl TypeError
         | Some p \<Rightarrow>
        (case collectRenderCollections c t (sel p) w1 of
           Inl e \<Rightarrow> Inl e
         | Inr (cs, w2) \<Rightarrow> collectPASS2 c sel (length (secondPASS w2)) (outArr @ cs) w2)))"

text \<open>\<^verbatim>\<open>_collectVisibleCollections\<close>: the output array goes in and comes out.\<close>

definition collectVisibleCollections ::
  "ops \<Rightarrow> ref list \<Rightarrow> world \<Rightarrow> error + (ref list \<times> world)" where
  "collectVisibleCollections c outArr w =
     (case planet w of
        None \<Rightarrow> Inl TypeError
      | Some p \<Rightarrow>
          if minZoom w \<le> maxCurrZoom p \<and> maxZoom w \<ge> maxCurrZoom p then
            let w1 = w\<lparr>renderingNodes := {}, renderingNodesNorth := {},
                       renderingNodesSouth := {}\<rparr>;
                out1 = outArr @ [entityCollectionAlways w1]
            in (case collectTree c entityCollectionsTree visibleNodes out1 w1 of
                  Inl e \<Rightarrow> Inl e
                | Inr (out2, w2) \<Rightarrow>
               (case collectTree c entityCollectionsTreeNorth visibleNodesNorth out2 w2 of
                  Inl e \<Rightarrow> Inl e
                | Inr (out3, w3) \<Rightarrow>
                    collectTree c entityCollectionsTreeSouth visibleNodesSouth out3 w3))
          else Inr (outArr, w))"

section \<open>A layer to run the model on\<close>

text \<open>
  Modelled from the spec: the quad-tree node class is not part of \<^verbatim>\<open>vector.js\<close>.  For
  running the model at concrete inputs each tree is a single root node that never
  splits, and its methods follow the spec's description of a node without children:
  \<^verbatim>\<open>insertEntity\<close> counts the entity, points it at the node, and puts it into the
  node's collection if there is one, else into the deferred buffer, queueing the node
  for a deferred build unless the insertion is immediate or the node is queued already;
  \<^verbatim>\<open>applyCollection\<close> builds a collection from the deferred buffer, clears the buffer
  and attaches the collection; a walk yields the node's collection if it has one; a
  node is visible when its id is among the rendering nodes.  The bulk build is only
  ever run on an empty list here, where it has nothing to do.
\<close>

definition root_insertEntity :: "ref \<Rightarrow> ref \<Rightarrow> bool \<Rightarrow> world \<Rightarrow> error + world" where
  "root_insertEntity t entity rightNow w =
     (let w1 = w\<lparr>nodes := (nodes w)(t := (nodes w t)\<lparr>count := count (nodes w t) + 1\<rparr>),
                 ents := (ents w)(entity := (ents w entity)\<lparr>nodePtr := Some t\<rparr>)\<rparr>
      in case entityCollection (nodes w1 t) of
           Some col \<Rightarrow> Inr (EntityCollection_add col entity w1)
         | None \<Rightarrow>
             let w2 = w1\<lparr>nodes := (nodes w1)(t := (nodes w1 t)
                         \<lparr>deferredEntities := deferredEntities (nodes w1 t) @ [entity]\<rparr>)\<rparr>
             in if rightNow \<or> inTheQueue (nodes w2 t) then Inr w2
                else Inr (queueDeferredNode t w2))"

definition root_applyCollection :: "ref \<Rightarrow> world \<Rightarrow> error + world" where
  "root_applyCollection n w =
     (let col = next_ref w;
          es = deferredEntities (nodes w n);
          w1 = w\<lparr>next_ref := next_ref w + 1, colls := (colls w)(col := [])\<rparr>;
          w2 = fold (EntityCollection_add col) es w1
      in Inr (w2\<lparr>nodes := (nodes w2)(n := (nodes w2 n)
                 \<lparr>deferredEntities := [], entityCollection := Some col\<rparr>)\<rparr>))"

definition root_collect :: "ref \<Rightarrow> world \<Rightarrow> error + (ref list \<times> world)" where
  "root_collect t w =
     Inr (case entityCollection (nodes w t) of None \<Rightarrow> [] | Some col \<Rightarrow> [col], w)"

definition root_ops :: ops where
  "root_ops =
     \<lparr>MAX_LAT = 85, MIN_LAT = - 85,
      cartesianToLonLat = (\<lambda>v. \<lparr>lon = 0, lat = 0\<rparr>),
      insertEntity = root_insertEntity,
      buildTree = (\<lambda>t es w. Inr w),
      collectRenderCollections = (\<lambda>t vis w. root_collect t w),
      collectRenderCollectionsPASS2 = (\<lambda>t vis nid w. root_collect t w),
      applyCollection = root_applyCollection,
      isVisible = (\<lambda>n w. nodeId (nodes w n) \<in> renderingNodes w)\<rparr>"

text \<open>
  Entities: 1 is a line string, 2 a point on the equator, 3 a point given by cartesian
  coordinates only, 4 a point near the north pole, 5 a point near the south pole; every
  other reference is a point at the origin of the map.
\<close>

definition some_entities :: "ref \<Rightarrow> Entity" where
  "some_entities r =
     \<lparr>entity_id = r,
      lineString = (r = 1),
      lonlat = (if r = 3 then None
                else if r = 2 then Some \<lparr>lon = 10, lat = 0\<rparr>
                else if r = 4 then Some \<lparr>lon = 20, lat = 88\<rparr>
                else if r = 5 then Some \<lparr>lon = - 30, lat = - 89\<rparr>
                else Some \<lparr>lon = 0, lat = 0\<rparr>),
      cartesian = (if r = 3 then Some (6378137, 0, 0) else None),
      vectorLayer = None,
      vectorLayerIndex = - 1,
      entity_entityCollection = None,
      nodePtr = None\<rparr>"

definition some_planet :: Planet where
  "some_planet =
     \<lparr>maxCurrZoom = 3, visibleNodes = [], visibleNodesNorth = [], visibleNodesSouth = []\<rparr>"

text \<open>The layer as the constructor leaves it, and as \<^verbatim>\<open>addTo\<close> leaves it after that.\<close>

definition new_layer :: world where
  "new_layer =
     \<lparr>layer_id = 7, visibility = True, minZoom = 0, maxZoom = 50,
      planet = None, layer = None,
      extent = \<lparr>southWest = \<lparr>lon = 180, lat = 90\<rparr>, northEast = \<lparr>lon = - 180, lat = - 90\<rparr>\<rparr>,
      entities = [],
      entityCollectionAlways = 0,
      entityCollectionsTree = None,
      entityCollectionsTreeNorth = None,
      entityCollectionsTreeSouth = None,
      renderingNodes = {}, renderingNodesNorth = {}, renderingNodesSouth = {},
      secondPASS = [],
      counter = 0,
      deferredEntitiesPendingQueue = [],
      events = [],
      timers = [],
      ents = some_entities,
      nodes = (\<lambda>r. \<lparr>nodeId = 0, count = 0, parentNode = None, deferredEntities = [],
                     entityCollection = None, inTheQueue = False\<rparr>),
      colls = (\<lambda>r. []),
      next_ref = 1\<rparr>"

definition attached_layer :: world where
  "attached_layer =
     new_layer\<lparr>planet := Some some_planet,
               entityCollectionsTree := Some 1,
               entityCollectionsTreeNorth := Some 2,
               entityCollectionsTreeSouth := Some 3,
               next_ref := 4\<rparr>"

text \<open>The attached layer after \<^verbatim>\<open>add\<close> of the line string 1.\<close>

definition with_line :: world where
  "with_line = attached_layer
     \<lparr>ents := (ents attached_layer)(1 := (ents attached_layer 1)
         \<lparr>vectorLayer := Some 7, vectorLayerIndex := 0, entity_entityCollection := Some 0\<rparr>),
      entities := [1],
      colls := (colls attached_layer)(0 := [1]),
      events := [(entityadd, 1)]\<rparr>"

section \<open>The scheduler as a transition system\<close>

text \<open>
  What happens to the scheduler between two moments: a node is queued
  (\<^verbatim>\<open>_queueDeferredNode\<close>, which executes it at once or puts it on the backlog); the
  oldest pending timeout fires and its callback runs \<^verbatim>\<open>applyCollection\<close> and then
  \<^verbatim>\<open>_dequeueRequest\<close>, which may execute a node of the backlog; the callback is ended by
  an exception of \<^verbatim>\<open>applyCollection\<close>, before \<^verbatim>\<open>_dequeueRequest\<close>; or anything else
  happens that leaves the counter and the pending timeouts alone.
\<close>

inductive sched_step :: "ops \<Rightarrow> world \<Rightarrow> world \<Rightarrow> bool" for c :: ops where
  enqueue: "sched_step c w (queueDeferredNode node w)"
| completion: "timers w = node # ts \<Longrightarrow> timeoutCallback c node (w\<lparr>timers := ts\<rparr>) = Inr w'
     \<Longrightarrow> sched_step c w w'"
| failure: "timers w = node # ts \<Longrightarrow> applyCollection c node (w\<lparr>timers := ts\<rparr>) = Inl x
     \<Longrightarrow> counter w' = counter w \<Longrightarrow> timers w' = ts \<Longrightarrow> sched_step c w w'"
| other: "counter w' = counter w \<Longrightarrow> timers w' = timers w \<Longrightarrow> sched_step c w w'"

text \<open>
  \<^verbatim>\<open>applyCollection\<close> belongs to the node class: it is taken to leave the layer's counter
  and the pending timeouts as they are.
\<close>

definition applyCollection_frame :: "ops \<Rightarrow> bool" where
  "applyCollection_frame c \<longleftrightarrow>
     (\<forall>node w w'. applyCollection c node w = Inr w'
        \<longrightarrow> counter w' = counter w \<and> timers w' = timers w)"

definition sched_inv :: "world \<Rightarrow> bool" where
  "sched_inv w \<longleftrightarrow> int (length (timers w)) \<le> counter w \<and> counter w \<le> 1"

section \<open>Draining the backlog\<close>

text \<open>
  The layer after the last \<open>k\<close> entries of the backlog were popped, the last one first,
  and the in-queue flag of each popped node was cleared; nothing else differs.
\<close>

definition drained :: "world \<Rightarrow> nat \<Rightarrow> world" where
  "drained w k =
     (let q = deferredEntitiesPendingQueue w
      in w\<lparr>deferredEntitiesPendingQueue := take (length q - k) q,
           nodes := (\<lambda>r. if r \<in> set (take k (rev q))
                          then (nodes w r)\<lparr>inTheQueue := False\<rparr> else nodes w r)\<rparr>)"

text \<open>
  A layer with a build in flight and three nodes on the backlog, pushed in the order 10,
  11, 12; of these only node 11 is among the rendering nodes.
\<close>

definition backlog_layer :: world where
  "backlog_layer =
     attached_layer
       \<lparr>nodes := (\<lambda>r. (nodes attached_layer r)\<lparr>nodeId := r, inTheQueue := (10 \<le> r \<and> r \<le> 12)\<rparr>),
        renderingNodes := {11},
        counter := 1,
        deferredEntitiesPendingQueue := [10, 11, 12]\<rparr>"

section \<open>The extent and the positions added\<close>

text \<open>
  \<^verbatim>\<open>insertEntity\<close> belongs to the node class: it is taken to leave the layer's extent and
  planet as they are, as well as every entity's position, kind and being attached to a
  layer or not, and the collection of every entity without a layer other than the one
  it inserts.
\<close>

definition insertEntity_frame :: "ops \<Rightarrow> bool" where
  "insertEntity_frame c \<longleftrightarrow>
     (\<forall>t e rightNow w w'. insertEntity c t e rightNow w = Inr w' \<longrightarrow>
        extent w' = extent w \<and> planet w' = planet w \<and>
        (\<forall>r. lineString (ents w' r) = lineString (ents w r) \<and>
             lonlat (ents w' r) = lonlat (ents w r) \<and>
             (vectorLayer (ents w' r) = None) = (vectorLayer (ents w r) = None) \<and>
             (r \<noteq> e \<and> vectorLayer (ents w r) = None \<longrightarrow>
                entity_entityCollection (ents w' r) = entity_entityCollection (ents w r))))"

text \<open>An entity that \<^verbatim>\<open>add\<close> accepts: attached to no layer and to no collection.\<close>

definition unowned :: "world \<Rightarrow> ref \<Rightarrow> bool" where
  "unowned w r \<longleftrightarrow> vectorLayer (ents w r) = None \<and> entity_entityCollection (ents w r) = None"

text \<open>
  The positions of the entities of a sequence that \<^verbatim>\<open>add\<close> routes to a tree: those that
  are accepted and are not line strings.
\<close>

definition added_positions :: "world \<Rightarrow> ref list \<Rightarrow> LonLat set" where
  "added_positions w es =
     {p. \<exists>e \<in> set es. unowned w e \<and> \<not> lineString (ents w e) \<and> lonlat (ents w e) = Some p}"

text \<open>
  An extent grown to hold a set of positions, and an extent lying within another one.
\<close>

definition grow :: "LonLat set \<Rightarrow> Extent \<Rightarrow> Extent" where
  "grow S x =
     \<lparr>southWest = \<lparr>lon = Min (insert (lon (southWest x)) (lon ` S)),
                   lat = Min (insert (lat (southWest x)) (lat ` S))\<rparr>,
      northEast = \<lparr>lon = Max (insert (lon (northEast x)) (lon ` S)),
                   lat = Max (insert (lat (northEast x)) (lat ` S))\<rparr>\<rparr>"

definition extent_within :: "Extent \<Rightarrow> Extent \<Rightarrow> bool" where
  "extent_within x y \<longleftrightarrow>
     lon (southWest y) \<le> lon (southWest x) \<and> lat (southWest y) \<le> lat (southWest x) \<and>
     lon (northEast x) \<le> lon (northEast y) \<and> lat (northEast x) \<le> lat (northEast y)"

section \<open>Parent chains\<close>

text \<open>
  The nodes that the loop \<^verbatim>\<open>while (node) { ...; node = node.parentNode; }\<close> visits from
  \<open>node\<close> on, when the parent chain ends: the node itself, its parent, and so on up to
  the node that has no parent.
\<close>

inductive chain :: "(ref \<Rightarrow> QuadNode) \<Rightarrow> ref option \<Rightarrow> ref list \<Rightarrow> bool"
  for ns :: "ref \<Rightarrow> QuadNode" where
  root: "chain ns None []"
| up: "chain ns (parentNode (ns n)) path \<Longrightarrow> chain ns (Some n) (n # path)"

text \<open>
  A layer whose flat list holds the points 2 and 4, both waiting in the deferred buffer
  of node 11, a child of the root 1.
\<close>

definition deferred_layer :: world where
  "deferred_layer = attached_layer
     \<lparr>entities := [2, 4],
      ents := (ents attached_layer)
        (2 := (ents attached_layer 2)\<lparr>vectorLayer := Some 7, vectorLayerIndex := 0,
                                       nodePtr := Some 11\<rparr>,
         4 := (ents attached_layer 4)\<lparr>vectorLayer := Some 7, vectorLayerIndex := 1,
                                       nodePtr := Some 11\<rparr>),
      nodes := (nodes attached_layer)
        (1 := (nodes attached_layer 1)\<lparr>count := 2\<rparr>,
         11 := (nodes attached_layer 11)\<lparr>nodeId := 11, count := 2, parentNode := Some 1,
                                          deferredEntities := [2, 4], inTheQueue := True\<rparr>)\<rparr>"

text \<open>
  The attached layer with the roots among the rendering nodes, and the same after node 1
  and then node 2 were queued: the build of node 1 is in flight, node 2 waits.
\<close>

definition seen_layer :: world where
  "seen_layer = attached_layer\<lparr>renderingNodes := {0}\<rparr>"

definition busy_layer :: world where
  "busy_layer = queueDeferredNode 2 (queueDeferredNode 1 seen_layer)"

section \<open>The model at concrete inputs\<close>

declare whilePendings.simps [simp del]

declare reindexFrom.simps [simp del]

lemma Vector_new_layer: "Vector root_ops 7 True 0 50 [] some_entities = Inr new_layer"
  by (simp add: Vector_def buildEntityCollectionsTree_def new_layer_def)

lemma addTo_new_layer: "addTo root_ops some_planet new_layer = Inr attached_layer"
  by (simp add: addTo_def buildEntityCollectionsTree_def new_layer_def attached_layer_def
      newQuadNode_def root_ops_def fun_eq_iff)

lemma add_line_string: "add root_ops 1 False attached_layer = Inr with_line"
  by (simp add: add_def attached_layer_def new_layer_def some_entities_def Let_def
      EntityCollection_add_def with_line_def)

section \<open>Replacing the entity set: what is kept\<close>

text \<open>
  C1.  The claim: \<^verbatim>\<open>setEntities(L)\<close> clears the three trees and the always-collection
  before the entities of \<open>L\<close> are added again, so no entity added before the call remains.
  The code: \<^verbatim>\<open>clear\<close> has no body, so the always-collection keeps what it held.  On the
  attached layer that holds the line string 1, \<^verbatim>\<open>setEntities([])\<close> returns with an empty
  entity list, with 1 still in the always-collection and still marked as owned by the layer.
\<close>

theorem setEntities_keeps_always_collection:
  "(case setEntities root_ops [] with_line of
      Inl e \<Rightarrow> False
    | Inr w \<Rightarrow> entities w = [] \<and> colls w (entityCollectionAlways w) = [1] \<and>
        vectorLayer (ents w 1) = Some (layer_id w))"
  by (simp add: setEntities_def clear_def buildEntityCollectionsTree_def with_line_def
      attached_layer_def new_layer_def some_entities_def Let_def newQuadNode_def root_ops_def)

section \<open>Adding an entity that has no geodetic position\<close>

lemma add_without_lonlat:
  assumes "vectorLayer (ents w e) = None" and "entity_entityCollection (ents w e) = None"
    and "\<not> lineString (ents w e)" and "planet w \<noteq> None"
    and "lonlat (ents w e) = None" and "layer w = None"
  shows "add c e rightNow w = Inl TypeError"
  using assms by (simp add: add_def Let_def)

text \<open>
  C2.  The claim: \<^verbatim>\<open>add\<close> of an entity that has a cartesian position and no lon/lat, on a
  layer with a planet, derives the lon/lat from the ellipsoid and completes without an
  exception.  The code reads the ellipsoid from \<^verbatim>\<open>this.layer._planet\<close>, and the layer has
  no property \<^verbatim>\<open>layer\<close>: on the attached layer, \<^verbatim>\<open>add\<close> of entity 3 raises a TypeError.
\<close>

theorem add_cartesian_only_raises: "add root_ops 3 False attached_layer = Inl TypeError"
  by (simp add: add_def attached_layer_def new_layer_def some_entities_def Let_def)

theorem add_cartesian_only_raises_witness:
  "vectorLayer (ents attached_layer 3) = None \<and>
   entity_entityCollection (ents attached_layer 3) = None \<and>
   \<not> lineString (ents attached_layer 3) \<and>
   planet attached_layer \<noteq> None \<and>
   lonlat (ents attached_layer 3) = None \<and>
   cartesian (ents attached_layer 3) \<noteq> None \<and>
   add root_ops 3 False attached_layer = Inl TypeError"
  using add_cartesian_only_raises
  by (simp add: attached_layer_def new_layer_def some_entities_def)

section \<open>The visible collections and the zoom range\<close>

lemma collectPASS2_keeps:
  "collectPASS2 c sel i outArr w = Inr (out, w') \<Longrightarrow> set outArr \<subseteq> set out"
proof (induction i arbitrary: outArr w)
  case 0
  then show ?case by simp
next
  case (Suc i)
  then show ?case
    by (fastforce split: if_splits option.splits sum.splits prod.splits)
qed

lemma collectTree_keeps:
  "collectTree c tree sel outArr w = Inr (out, w') \<Longrightarrow> set outArr \<subseteq> set out"
  unfolding collectTree_def Let_def
  by (auto split: option.splits sum.splits prod.splits dest!: collectPASS2_keeps)

lemma collect_inside_zoom_range:
  assumes "planet w = Some p"
    and "collectVisibleCollections c outArr w = Inr (out, w')"
    and "minZoom w \<le> maxCurrZoom p \<and> maxCurrZoom p \<le> maxZoom w"
  shows "entityCollectionAlways w \<in> set out"
  using assms unfolding collectVisibleCollections_def Let_def
  by (auto split: option.splits sum.splits prod.splits dest!: collectTree_keeps)

text \<open>
  C3 as stated, refuted: with the camera at zoom 3 and the layer's \<^verbatim>\<open>maxZoom\<close> at 2, the
  query returns the output list as it got it, without the always-collection.
\<close>

theorem collect_outside_zoom_range_counterexample:
  "collectVisibleCollections root_ops [] (attached_layer\<lparr>maxZoom := 2\<rparr>)
     = Inr ([], attached_layer\<lparr>maxZoom := 2\<rparr>) \<and>
   entityCollectionAlways (attached_layer\<lparr>maxZoom := 2\<rparr>) \<notin> set []"
  by (simp add: collectVisibleCollections_def attached_layer_def new_layer_def some_planet_def)

text \<open>
  C3, amended.  A query that returns includes the always-collection in its output when
  the planet's current zoom lies between the layer's \<^verbatim>\<open>minZoom\<close> and \<^verbatim>\<open>maxZoom\<close>;
  outside that range it leaves the output list and the layer as they were.
\<close>

theorem collect_always_within_zoom_range:
  assumes "planet w = Some p"
    and "collectVisibleCollections c outArr w = Inr (out, w')"
  shows "(minZoom w \<le> maxCurrZoom p \<and> maxCurrZoom p \<le> maxZoom w
            \<longrightarrow> entityCollectionAlways w \<in> set out) \<and>
         (\<not> (minZoom w \<le> maxCurrZoom p \<and> maxCurrZoom p \<le> maxZoom w)
            \<longrightarrow> out = outArr \<and> w' = w)"
proof (rule conjI; rule impI)
  assume "minZoom w \<le> maxCurrZoom p \<and> maxCurrZoom p \<le> maxZoom w"
  then show "entityCollectionAlways w \<in> set out"
    by (rule collect_inside_zoom_range [OF assms])
next
  assume "\<not> (minZoom w \<le> maxCurrZoom p \<and> maxCurrZoom p \<le> maxZoom w)"
  with assms show "out = outArr \<and> w' = w"
    by (auto simp: collectVisibleCollections_def)
qed

theorem collect_always_within_zoom_range_witness:
  "planet attached_layer = Some some_planet \<and>
   collectVisibleCollections root_ops [] attached_layer = Inr ([0], attached_layer) \<and>
   minZoom attached_layer \<le> maxCurrZoom some_planet \<and>
   maxCurrZoom some_planet \<le> maxZoom attached_layer \<and>
   entityCollectionAlways attached_layer \<in> set [0]"
proof -
  have p: "planet attached_layer = Some some_planet"
    by (simp add: attached_layer_def)
  have r: "collectVisibleCollections root_ops [] attached_layer = Inr ([0], attached_layer)"
    by (simp add: collectVisibleCollections_def collectTree_def root_ops_def root_collect_def
        attached_layer_def new_layer_def some_planet_def Let_def)
  have z: "minZoom attached_layer \<le> maxCurrZoom some_planet \<and>
           maxCurrZoom some_planet \<le> maxZoom attached_layer"
    by (simp add: attached_layer_def new_layer_def some_planet_def)
  from collect_always_within_zoom_range [OF p r] z p r show ?thesis by simp
qed

section \<open>Entities that are owned already\<close>

text \<open>
  C9.  \<^verbatim>\<open>add\<close> of an entity that is attached to a vector layer or to an entity collection
  returns with the layer and the store as they were: the entity list, the trees, the
  always-collection, the extent and the event log are the same, so no
  \<^verbatim>\<open>entityadd\<close> is dispatched, and adding it again changes nothing either.
\<close>

theorem add_owned_is_noop:
  "vectorLayer (ents w e) \<noteq> None \<or> entity_entityCollection (ents w e) \<noteq> None
   \<Longrightarrow> add c e rightNow w = Inr w"
  by (simp add: add_def)

theorem add_owned_is_noop_witness:
  "vectorLayer (ents with_line 1) = Some 7 \<and> add root_ops 1 False with_line = Inr with_line"
proof -
  have "vectorLayer (ents with_line 1) = Some 7"
    by (simp add: with_line_def)
  moreover
  have h: "vectorLayer (ents with_line 1) \<noteq> None \<or>
           entity_entityCollection (ents with_line 1) \<noteq> None"
    by (simp add: with_line_def)
  from add_owned_is_noop [OF h] have "add root_ops 1 False with_line = Inr with_line" .
  ultimately show ?thesis by simp
qed

section \<open>The scheduler on a hidden layer\<close>

text \<open>
  C10.  When the layer's visibility flag is false, \<^verbatim>\<open>_queueDeferredNode\<close> changes nothing:
  the node is not marked as in the queue, the backlog, the pending timeouts and the
  in-flight counter are as before.
\<close>

theorem queueDeferredNode_invisible:
  "\<not> visibility w \<Longrightarrow> queueDeferredNode node w = w"
  by (simp add: queueDeferredNode_def)

theorem queueDeferredNode_invisible_witness:
  "\<not> visibility (attached_layer\<lparr>visibility := False\<rparr>) \<and>
   queueDeferredNode 1 (attached_layer\<lparr>visibility := False\<rparr>)
     = attached_layer\<lparr>visibility := False\<rparr>"
  using queueDeferredNode_invisible [of "attached_layer\<lparr>visibility := False\<rparr>" 1] by simp

section \<open>Routing by latitude\<close>

text \<open>
  C4.  An entity that is not a line string and has a lon/lat, added to a layer with a
  planet: \<^verbatim>\<open>add\<close> marks it, fits the extent, and then calls \<^verbatim>\<open>insertEntity\<close> once: on
  the root of the north tree if its latitude is above \<^verbatim>\<open>MAX_LAT\<close>, on the root of the
  south tree if it is below \<^verbatim>\<open>MIN_LAT\<close>, and on the root of the Mercator tree if it is
  between the two, both bounds included.  The result of \<^verbatim>\<open>add\<close> is the result of that
  one call with the event appended, so no other tree is touched by \<^verbatim>\<open>add\<close>.
\<close>

theorem add_routes_by_latitude:
  assumes "vectorLayer (ents w e) = None" and "entity_entityCollection (ents w e) = None"
    and "\<not> lineString (ents w e)" and "planet w \<noteq> None"
    and "lonlat (ents w e) = Some ll"
    and "entityCollectionsTree w = Some t"
    and "entityCollectionsTreeNorth w = Some tn"
    and "entityCollectionsTreeSouth w = Some ts"
    and "MIN_LAT c \<le> MAX_LAT c"
  shows "\<exists>w4. fitExtent e
            (w\<lparr>ents := (ents w)(e := (ents w e)\<lparr>vectorLayer := Some (layer_id w),
                   vectorLayerIndex := int (length (entities w))\<rparr>),
               entities := entities w @ [e]\<rparr>) = Inr w4 \<and>
          (MAX_LAT c < lat ll \<longrightarrow>
             add c e rightNow w = insert_then_dispatch c tn e rightNow w4) \<and>
          (lat ll < MIN_LAT c \<longrightarrow>
             add c e rightNow w = insert_then_dispatch c ts e rightNow w4) \<and>
          (MIN_LAT c \<le> lat ll \<and> lat ll \<le> MAX_LAT c \<longrightarrow>
             add c e rightNow w = insert_then_dispatch c t e rightNow w4)"
  using assms by (auto simp: add_def Let_def fitExtent_def insert_then_dispatch_def)

theorem add_routes_by_latitude_witness:
  "vectorLayer (ents attached_layer 4) = None \<and>
   entity_entityCollection (ents attached_layer 4) = None \<and>
   \<not> lineString (ents attached_layer 4) \<and>
   planet attached_layer \<noteq> None \<and>
   lonlat (ents attached_layer 4) = Some \<lparr>lon = 20, lat = 88\<rparr> \<and>
   entityCollectionsTree attached_layer = Some 1 \<and>
   entityCollectionsTreeNorth attached_layer = Some 2 \<and>
   entityCollectionsTreeSouth attached_layer = Some 3 \<and>
   MIN_LAT root_ops \<le> MAX_LAT root_ops \<and>
   MAX_LAT root_ops < lat \<lparr>lon = 20, lat = 88\<rparr> \<and>
   (case add root_ops 4 False attached_layer of
      Inl x \<Rightarrow> False
    | Inr w \<Rightarrow> deferredEntities (nodes w 2) = [4] \<and> deferredEntities (nodes w 1) = [] \<and>
        deferredEntities (nodes w 3) = [] \<and> count (nodes w 2) = 1)"
  using add_routes_by_latitude [of attached_layer 4 "\<lparr>lon = 20, lat = 88\<rparr>" 1 2 3 root_ops False]
  by (simp add: attached_layer_def new_layer_def some_entities_def some_planet_def root_ops_def
      fitExtent_def root_insertEntity_def queueDeferredNode_def execDeferredNode_def Let_def
      insert_then_dispatch_def)

section \<open>At most one deferred build in flight\<close>

lemma whilePendings_scheduler:
  "whilePendings c w = (r, w') \<Longrightarrow> counter w' = counter w \<and> timers w' = timers w"
proof (induction c w rule: whilePendings.induct)
  case (1 c w)
  show ?case
  proof (cases "deferredEntitiesPendingQueue w = []")
    case True
    with "1.prems" show ?thesis by (simp add: whilePendings.simps [of c w])
  next
    case False
    let ?node = "last (deferredEntitiesPendingQueue w)"
    let ?w1 = "w\<lparr>deferredEntitiesPendingQueue := butlast (deferredEntitiesPendingQueue w)\<rparr>"
    let ?w2 = "?w1\<lparr>nodes := (nodes ?w1)(?node := (nodes ?w1 ?node)\<lparr>inTheQueue := False\<rparr>)\<rparr>"
    show ?thesis
    proof (cases "isVisible c ?node ?w2")
      case True
      with False "1.prems" show ?thesis
        by (auto simp: whilePendings.simps [of c w] Let_def)
    next
      case vis: False
      with False "1.prems" have "whilePendings c ?w2 = (r, w')"
        by (simp add: whilePendings.simps [of c w] Let_def)
      with "1.IH" [OF False refl refl refl vis] show ?thesis by simp
    qed
  qed
qed

lemma queueDeferredNode_inv: "sched_inv w \<Longrightarrow> sched_inv (queueDeferredNode node w)"
  by (auto simp: sched_inv_def queueDeferredNode_def execDeferredNode_def Let_def)

lemma dequeueRequest_inv:
  assumes "timers w = []" and "counter w = 1"
  shows "sched_inv (dequeueRequest c w)"
proof -
  obtain r w2 where wp: "whilePendings c (w\<lparr>counter := counter w - 1\<rparr>) = (r, w2)"
    by (cases "whilePendings c (w\<lparr>counter := counter w - 1\<rparr>)")
  from whilePendings_scheduler [OF wp] assms
  have "counter w2 = 0" "timers w2 = []" by simp_all
  with assms wp show ?thesis
    by (auto simp: dequeueRequest_def Let_def sched_inv_def execDeferredNode_def
        split: option.splits)
qed

lemma sched_step_inv:
  assumes "applyCollection_frame c" and "sched_step c w w'" and "sched_inv w"
  shows "sched_inv w'"
  using assms(2,3)
proof (cases rule: sched_step.cases)
  case (enqueue node)
  then show ?thesis using assms(3) by (simp add: queueDeferredNode_inv)
next
  case (completion node ts)
  from completion(1) assms(3) have "1 + int (length ts) \<le> counter w" "counter w \<le> 1"
    by (auto simp: sched_inv_def)
  then have c1: "counter w = 1" and ts: "ts = []"
    by (cases ts; simp)+
  from completion(2) obtain w1 where
    a: "applyCollection c node (w\<lparr>timers := ts\<rparr>) = Inr w1" and w': "w' = dequeueRequest c w1"
    by (auto simp: timeoutCallback_def split: sum.splits)
  from assms(1) a have "counter w1 = counter w" "timers w1 = ts"
    by (auto simp: applyCollection_frame_def)
  with c1 ts w' show ?thesis by (simp add: dequeueRequest_inv)
next
  case (failure node ts x)
  with assms(3) show ?thesis by (auto simp: sched_inv_def)
next
  case other
  with assms(3) show ?thesis by (simp add: sched_inv_def)
qed

lemma sched_steps_inv:
  assumes "applyCollection_frame c" and "(sched_step c)\<^sup>*\<^sup>* w0 w" and "sched_inv w0"
  shows "sched_inv w"
  using assms(2,3)
  by (induction rule: rtranclp_induct) (auto intro: sched_step_inv [OF assms(1)])

lemma fold_add_scheduler:
  "counter (fold (EntityCollection_add col) es w) = counter w \<and>
   timers (fold (EntityCollection_add col) es w) = timers w"
  by (induction es arbitrary: w) (simp_all add: EntityCollection_add_def)

lemma root_ops_frame: "applyCollection_frame root_ops"
  by (auto simp: applyCollection_frame_def root_ops_def root_applyCollection_def Let_def
      fold_add_scheduler)

lemma busy_layer_fields:
  "counter busy_layer = 1" "timers busy_layer = [1]"
  "deferredEntitiesPendingQueue busy_layer = [2]"
  by (simp_all add: busy_layer_def seen_layer_def queueDeferredNode_def execDeferredNode_def
      Let_def attached_layer_def new_layer_def)

lemma busy_layer_completion:
  "\<exists>w'. timeoutCallback root_ops 1 (busy_layer\<lparr>timers := []\<rparr>) = Inr w' \<and>
        counter w' = 1 \<and> timers w' = [2] \<and> deferredEntitiesPendingQueue w' = []"
  by (simp add: timeoutCallback_def root_ops_def root_applyCollection_def dequeueRequest_def
      whilePendings.simps Let_def busy_layer_def seen_layer_def queueDeferredNode_def
      execDeferredNode_def attached_layer_def new_layer_def)

text \<open>
  C5.  From a layer with no build in flight, after any sequence of scheduler steps (a
  node queued, a pending build completed or ended by an exception, with anything else in
  between that does not touch the counter or the timeouts), the in-flight counter is
  at most 1, and so is the number of callbacks waiting to run.
\<close>

theorem in_flight_at_most_one:
  assumes "applyCollection_frame c" and "counter w0 = 0" and "timers w0 = []"
    and "(sched_step c)\<^sup>*\<^sup>* w0 w"
  shows "counter w \<le> 1 \<and> length (timers w) \<le> 1"
proof -
  from assms(2,3) have "sched_inv w0" by (simp add: sched_inv_def)
  with assms(1,4) have "sched_inv w" by (blast intro: sched_steps_inv)
  then show ?thesis by (auto simp: sched_inv_def)
qed

theorem in_flight_at_most_one_witness:
  "applyCollection_frame root_ops \<and> counter seen_layer = 0 \<and> timers seen_layer = [] \<and>
   (sched_step root_ops)\<^sup>*\<^sup>* seen_layer
      (projr (timeoutCallback root_ops 1 (busy_layer\<lparr>timers := []\<rparr>))) \<and>
   timers (projr (timeoutCallback root_ops 1 (busy_layer\<lparr>timers := []\<rparr>))) = [2] \<and>
   counter (projr (timeoutCallback root_ops 1 (busy_layer\<lparr>timers := []\<rparr>))) \<le> 1 \<and>
   length (timers (projr (timeoutCallback root_ops 1 (busy_layer\<lparr>timers := []\<rparr>)))) \<le> 1"
proof -
  let ?w3 = "projr (timeoutCallback root_ops 1 (busy_layer\<lparr>timers := []\<rparr>))"
  have c: "counter seen_layer = 0" and t: "timers seen_layer = []"
    by (simp_all add: seen_layer_def attached_layer_def new_layer_def)
  from busy_layer_completion have cb:
    "timeoutCallback root_ops 1 (busy_layer\<lparr>timers := []\<rparr>) = Inr ?w3"
    and t3: "timers ?w3 = [2]"
    by auto
  have "sched_step root_ops seen_layer (queueDeferredNode 1 seen_layer)"
    by (rule sched_step.enqueue)
  moreover have "sched_step root_ops (queueDeferredNode 1 seen_layer) busy_layer"
    unfolding busy_layer_def by (rule sched_step.enqueue)
  moreover have "sched_step root_ops busy_layer ?w3"
    using busy_layer_fields(2) cb by (rule sched_step.completion)
  ultimately have s: "(sched_step root_ops)\<^sup>*\<^sup>* seen_layer ?w3"
    by (blast intro: rtranclp.rtrancl_into_rtrancl)
  from in_flight_at_most_one [OF root_ops_frame c t s] root_ops_frame c t s t3
  show ?thesis by simp
qed

section \<open>Draining the backlog: last in, first out\<close>

lemma drained_0: "drained w 0 = w"
  by (simp add: drained_def)

lemma drained_1:
  assumes "deferredEntitiesPendingQueue w \<noteq> []"
  shows "w\<lparr>deferredEntitiesPendingQueue := butlast (deferredEntitiesPendingQueue w),
           nodes := (nodes w)(last (deferredEntitiesPendingQueue w) :=
              (nodes w (last (deferredEntitiesPendingQueue w)))\<lparr>inTheQueue := False\<rparr>)\<rparr>
         = drained w 1"
proof -
  from assms obtain q x where q: "deferredEntitiesPendingQueue w = q @ [x]"
    by (cases "deferredEntitiesPendingQueue w" rule: rev_cases) auto
  then show ?thesis
    by (simp add: drained_def fun_eq_iff)
qed

lemma drained_Suc:
  assumes "deferredEntitiesPendingQueue w \<noteq> []"
  shows "drained (drained w 1) k = drained w (Suc k)"
proof -
  from assms obtain q x where q: "deferredEntitiesPendingQueue w = q @ [x]"
    by (cases "deferredEntitiesPendingQueue w" rule: rev_cases) auto
  then show ?thesis
    by (auto simp: drained_def fun_eq_iff)
qed

lemma rev_nth_Suc:
  assumes "deferredEntitiesPendingQueue w \<noteq> []"
  shows "rev (deferredEntitiesPendingQueue w) ! Suc j
           = rev (deferredEntitiesPendingQueue (drained w 1)) ! j"
    and "rev (deferredEntitiesPendingQueue w) ! 0 = last (deferredEntitiesPendingQueue w)"
    and "length (deferredEntitiesPendingQueue (drained w 1))
           = length (deferredEntitiesPendingQueue w) - 1"
proof -
  from assms obtain q x where q: "deferredEntitiesPendingQueue w = q @ [x]"
    by (cases "deferredEntitiesPendingQueue w" rule: rev_cases) auto
  then show "rev (deferredEntitiesPendingQueue w) ! Suc j
           = rev (deferredEntitiesPendingQueue (drained w 1)) ! j"
    and "rev (deferredEntitiesPendingQueue w) ! 0 = last (deferredEntitiesPendingQueue w)"
    and "length (deferredEntitiesPendingQueue (drained w 1))
           = length (deferredEntitiesPendingQueue w) - 1"
    by (simp_all add: drained_def)
qed

lemma whilePendings_backlog:
  "whilePendings root_ops backlog_layer =
     (Some 11, backlog_layer
        \<lparr>deferredEntitiesPendingQueue := [10],
         nodes := (nodes backlog_layer)
            (12 := (nodes backlog_layer 12)\<lparr>inTheQueue := False\<rparr>,
             11 := (nodes backlog_layer 11)\<lparr>inTheQueue := False\<rparr>)\<rparr>)"
  by (simp add: whilePendings.simps backlog_layer_def attached_layer_def new_layer_def
      root_ops_def Let_def)

text \<open>
  C6.  \<^verbatim>\<open>_whilePendings\<close> pops some number \<open>k\<close> of entries off the end of the backlog,
  the entry pushed last first, and clears the in-queue flag of every node it pops; it
  changes nothing else.  Every node popped before the last one was not visible when it
  was dequeued, that is in the layer as it was right after that pop.  If a node is
  returned, it is the last one popped and it was visible when it was dequeued; if
  nothing is returned, the whole backlog was popped and no popped node was visible.
\<close>

theorem whilePendings_lifo:
  assumes "whilePendings c w = (res, w')"
  shows "\<exists>k \<le> length (deferredEntitiesPendingQueue w).
           w' = drained w k \<and>
           (\<forall>j<k. Suc j < k \<or> res = None
              \<longrightarrow> \<not> isVisible c (rev (deferredEntitiesPendingQueue w) ! j) (drained w (Suc j))) \<and>
           (case res of
              None \<Rightarrow> k = length (deferredEntitiesPendingQueue w)
            | Some node \<Rightarrow> 0 < k \<and> node = rev (deferredEntitiesPendingQueue w) ! (k - 1) \<and>
                isVisible c node (drained w k))"
  using assms
proof (induction c w arbitrary: res w' rule: whilePendings.induct)
  case (1 c w)
  let ?q = "deferredEntitiesPendingQueue w"
  show ?case
  proof (cases "?q = []")
    case True
    with "1.prems" have "res = None" "w' = w"
      by (simp_all add: whilePendings.simps [of c w])
    with True show ?thesis by (simp add: drained_0)
  next
    case ne: False
    let ?node = "last ?q"
    let ?w1 = "w\<lparr>deferredEntitiesPendingQueue := butlast ?q\<rparr>"
    let ?w2 = "?w1\<lparr>nodes := (nodes ?w1)(?node := (nodes ?w1 ?node)\<lparr>inTheQueue := False\<rparr>)\<rparr>"
    have w2: "?w2 = drained w 1"
      using drained_1 [OF ne] by simp
    show ?thesis
    proof (cases "isVisible c ?node ?w2")
      case True
      with ne "1.prems" have r: "res = Some ?node" "w' = ?w2"
        by (simp_all add: whilePendings.simps [of c w] Let_def)
      from ne have "1 \<le> length ?q" by (cases ?q) simp_all
      moreover have "w' = drained w 1" using r w2 by simp
      moreover have "isVisible c ?node (drained w 1)" using True w2 by simp
      ultimately show ?thesis
        using r(1) rev_nth_Suc(2) [OF ne]
        by (intro exI [of _ 1]) simp
    next
      case vis: False
      with ne "1.prems" have "whilePendings c ?w2 = (res, w')"
        by (simp add: whilePendings.simps [of c w] Let_def)
      from "1.IH" [OF ne refl refl refl vis this]
      obtain k where k: "k \<le> length (deferredEntitiesPendingQueue ?w2)"
        and s: "w' = drained ?w2 k"
        and sk: "\<forall>j<k. Suc j < k \<or> res = None
              \<longrightarrow> \<not> isVisible c (rev (deferredEntitiesPendingQueue ?w2) ! j) (drained ?w2 (Suc j))"
        and r: "case res of
              None \<Rightarrow> k = length (deferredEntitiesPendingQueue ?w2)
            | Some node \<Rightarrow> 0 < k \<and> node = rev (deferredEntitiesPendingQueue ?w2) ! (k - 1) \<and>
                isVisible c node (drained ?w2 k)"
        by blast
      have len: "length (deferredEntitiesPendingQueue (drained w 1)) = length ?q - 1"
        by (rule rev_nth_Suc(3) [OF ne])
      have nth: "\<And>j. rev (deferredEntitiesPendingQueue (drained w 1)) ! j = rev ?q ! Suc j"
        by (rule rev_nth_Suc(1) [OF ne, symmetric])
      have dr: "\<And>j. drained (drained w 1) j = drained w (Suc j)"
        by (rule drained_Suc [OF ne])
      from ne have pos: "1 \<le> length ?q" by (cases ?q) simp_all
      have k': "k \<le> length ?q - 1"
        using k len unfolding w2 by simp
      have a: "Suc k \<le> length ?q"
        using k' pos by arith
      have b: "w' = drained w (Suc k)"
        using s unfolding w2 dr .
      have c: "\<forall>j<Suc k. Suc j < Suc k \<or> res = None
              \<longrightarrow> \<not> isVisible c (rev ?q ! j) (drained w (Suc j))"
      proof (intro allI impI)
        fix j assume j: "j < Suc k" and h: "Suc j < Suc k \<or> res = None"
        show "\<not> isVisible c (rev ?q ! j) (drained w (Suc j))"
        proof (cases j)
          case 0
          with vis w2 rev_nth_Suc(2) [OF ne] show ?thesis by simp
        next
          case (Suc i)
          with j h have "i < k" "Suc i < k \<or> res = None" by simp_all
          with sk have "\<not> isVisible c (rev (deferredEntitiesPendingQueue ?w2) ! i) (drained ?w2 (Suc i))"
            by blast
          then show ?thesis unfolding w2 nth dr Suc .
        qed
      qed
      have d: "case res of
              None \<Rightarrow> Suc k = length ?q
            | Some node \<Rightarrow> 0 < Suc k \<and> node = rev ?q ! (Suc k - 1) \<and>
                isVisible c node (drained w (Suc k))"
      proof (cases res)
        case None
        with r have "k = length (deferredEntitiesPendingQueue ?w2)" by simp
        then have "k = length ?q - 1" unfolding w2 len .
        with pos have "Suc k = length ?q" by arith
        with None show ?thesis by simp
      next
        case (Some node)
        have "0 < k \<and> node = rev ?q ! Suc (k - 1) \<and> isVisible c node (drained w (Suc k))"
          using r [unfolded Some option.case] unfolding w2 nth dr .
        with Some show ?thesis by (cases k) auto
      qed
      from a b c d show ?thesis by blast
    qed
  qed
qed

theorem whilePendings_lifo_witness:
  "whilePendings root_ops backlog_layer = (Some 11, snd (whilePendings root_ops backlog_layer)) \<and>
   snd (whilePendings root_ops backlog_layer) = drained backlog_layer 2 \<and>
   deferredEntitiesPendingQueue (drained backlog_layer 2) = [10] \<and>
   \<not> inTheQueue (nodes (drained backlog_layer 2) 12) \<and>
   \<not> inTheQueue (nodes (drained backlog_layer 2) 11) \<and>
   inTheQueue (nodes (drained backlog_layer 2) 10) \<and>
   \<not> isVisible root_ops 12 (drained backlog_layer 1) \<and>
   isVisible root_ops 11 (drained backlog_layer 2)"
proof -
  have h: "whilePendings root_ops backlog_layer
             = (Some 11, snd (whilePendings root_ops backlog_layer))"
    by (simp add: whilePendings_backlog)
  have q: "deferredEntitiesPendingQueue backlog_layer = [10, 11, 12]"
    by (simp add: backlog_layer_def)
  from whilePendings_lifo [OF h] obtain k where
    k0: "k \<le> length (deferredEntitiesPendingQueue backlog_layer)"
    and w: "snd (whilePendings root_ops backlog_layer) = drained backlog_layer k"
    and s0: "\<forall>j<k. Suc j < k \<or> Some (11::nat) = None
          \<longrightarrow> \<not> isVisible root_ops (rev (deferredEntitiesPendingQueue backlog_layer) ! j)
                (drained backlog_layer (Suc j))"
    and r0: "case Some 11 of
          None \<Rightarrow> k = length (deferredEntitiesPendingQueue backlog_layer)
        | Some node \<Rightarrow> 0 < k \<and> node = rev (deferredEntitiesPendingQueue backlog_layer) ! (k - 1) \<and>
            isVisible root_ops node (drained backlog_layer k)"
    by blast
  from k0 r0 have k: "k \<le> 3" "0 < k" "11 = rev [10, 11, 12 :: nat] ! (k - 1)"
    and v: "isVisible root_ops 11 (drained backlog_layer k)"
    unfolding q by simp_all
  from s0 have s: "\<forall>j<k. Suc j < k
      \<longrightarrow> \<not> isVisible root_ops (rev [10, 11, 12] ! j) (drained backlog_layer (Suc j))"
    unfolding q by simp
  from k have "k = 1 \<or> k = 2 \<or> k = 3" by arith
  with k(3) have k2: "k = 2" by auto
  from s k2 have "\<not> isVisible root_ops 12 (drained backlog_layer 1)"
    by (auto simp: numeral_2_eq_2)
  moreover have "deferredEntitiesPendingQueue (drained backlog_layer 2) = [10]"
    "\<not> inTheQueue (nodes (drained backlog_layer 2) 12)"
    "\<not> inTheQueue (nodes (drained backlog_layer 2) 11)"
    "inTheQueue (nodes (drained backlog_layer 2) 10)"
    by (simp_all add: drained_def backlog_layer_def Let_def)
  ultimately show ?thesis using h w v k2 by simp
qed

section \<open>The extent after a sequence of additions\<close>

lemma fitExtent_closed:
  assumes "lonlat (ents w e) = Some p"
  shows "fitExtent e w = Inr (w\<lparr>extent := grow {p} (extent w)\<rparr>)"
proof -
  obtain a b d f where x: "extent w = \<lparr>southWest = \<lparr>lon = a, lat = b\<rparr>, northEast = \<lparr>lon = d, lat = f\<rparr>\<rparr>"
    by (cases "extent w"; cases "southWest (extent w)"; cases "northEast (extent w)") auto
  show ?thesis
    using assms by (simp add: fitExtent_def x grow_def Let_def min_def max_def)
qed

lemma finite_added_positions: "finite (added_positions w es)"
proof -
  have "added_positions w es \<subseteq> (\<lambda>e. the (lonlat (ents w e))) ` set es"
    by (force simp: added_positions_def)
  then show ?thesis by (rule finite_subset) simp
qed

lemma min_Min_insert:
  fixes a :: real
  assumes "finite T"
  shows "min a (Min (insert b T)) = Min (insert (min a b) T)"
proof (cases "T = {}")
  case True
  then show ?thesis by (simp add: min.commute)
next
  case False
  with assms show ?thesis by (simp add: min.assoc min.left_commute min.commute)
qed

lemma max_Max_insert:
  fixes a :: real
  assumes "finite T"
  shows "max a (Max (insert b T)) = Max (insert (max a b) T)"
proof (cases "T = {}")
  case True
  then show ?thesis by (simp add: max.commute)
next
  case False
  with assms show ?thesis by (simp add: max.assoc max.left_commute max.commute)
qed

lemma grow_empty: "grow {} x = x"
  by (simp add: grow_def)

lemma grow_insert:
  assumes "finite S"
  shows "grow (insert p S) x = grow S (grow {p} x)"
  using assms by (simp add: grow_def min_Min_insert max_Max_insert)

lemma grow_within:
  assumes "finite S"
  shows "extent_within x (grow S x)"
  using assms by (simp add: grow_def extent_within_def)

lemma add_not_unowned: "\<not> unowned w e \<Longrightarrow> add c e rightNow w = Inr w"
  by (auto simp: add_def unowned_def)

lemma add_unowned_line:
  assumes "unowned w e" "lineString (ents w e)" "add c e rightNow w = Inr w'"
  shows "extent w' = extent w" "planet w' = planet w"
    "lineString (ents w' r) = lineString (ents w r)"
    "lonlat (ents w' r) = lonlat (ents w r)"
    "r \<noteq> e \<Longrightarrow> unowned w' r = unowned w r"
    "\<not> unowned w' e"
  using assms
  by (auto simp: add_def unowned_def Let_def EntityCollection_add_def split: if_splits)

lemma add_unowned_point:
  assumes f: "insertEntity_frame c"
    and "unowned w e" "\<not> lineString (ents w e)" "planet w \<noteq> None"
    and p: "lonlat (ents w e) = Some p"
    and a: "add c e rightNow w = Inr w'"
  shows "extent w' = grow {p} (extent w)" "planet w' = planet w"
    "lineString (ents w' r) = lineString (ents w r)"
    "lonlat (ents w' r) = lonlat (ents w r)"
    "r \<noteq> e \<Longrightarrow> unowned w' r = unowned w r"
    "\<not> unowned w' e"
proof -
  let ?w2 = "w\<lparr>ents := (ents w)(e := (ents w e)\<lparr>vectorLayer := Some (layer_id w),
                   vectorLayerIndex := int (length (entities w))\<rparr>),
               entities := entities w @ [e]\<rparr>"
  have p2: "lonlat (ents ?w2 e) = Some p" using p by simp
  let ?w4 = "?w2\<lparr>extent := grow {p} (extent ?w2)\<rparr>"
  have fit: "fitExtent e ?w2 = Inr ?w4" by (rule fitExtent_closed [OF p2])
  from a assms(2-4) p fit obtain t w5 where
    i: "insertEntity c t e rightNow ?w4 = Inr w5" and w': "w' = w5\<lparr>events := events w5 @ [(entityadd, e)]\<rparr>"
    by (auto simp: add_def unowned_def Let_def split: if_splits option.splits sum.splits)
  from f i have fr: "extent w5 = extent ?w4" "planet w5 = planet ?w4"
    "\<And>r. lineString (ents w5 r) = lineString (ents ?w4 r)"
    "\<And>r. lonlat (ents w5 r) = lonlat (ents ?w4 r)"
    "\<And>r. (vectorLayer (ents w5 r) = None) = (vectorLayer (ents ?w4 r) = None)"
    "\<And>r. r \<noteq> e \<Longrightarrow> vectorLayer (ents ?w4 r) = None \<Longrightarrow>
        entity_entityCollection (ents w5 r) = entity_entityCollection (ents ?w4 r)"
    unfolding insertEntity_frame_def by blast+
  show "extent w' = grow {p} (extent w)" using fr(1) w' by simp
  show "planet w' = planet w" using fr(2) w' by simp
  show "lineString (ents w' r) = lineString (ents w r)" using fr(3) [of r] w' by simp
  show "lonlat (ents w' r) = lonlat (ents w r)" using fr(4) [of r] w' by simp
  show "\<not> unowned w' e" using fr(5) [of e] w' by (simp add: unowned_def)
  show "unowned w' r = unowned w r" if "r \<noteq> e"
    using fr(5) [of r] fr(6) [of r] w' that by (auto simp: unowned_def)
qed

lemma add_seq_extent:
  assumes f: "insertEntity_frame c"
  shows "add_seq c calls w = Inr w' \<Longrightarrow> planet w \<noteq> None \<Longrightarrow>
         (\<forall>e \<in> fst ` set calls.
             unowned w e \<and> \<not> lineString (ents w e) \<longrightarrow> lonlat (ents w e) \<noteq> None) \<Longrightarrow>
         extent w' = grow (added_positions w (map fst calls)) (extent w)"
proof (induction calls arbitrary: w)
  case Nil
  then show ?case by (simp add: added_positions_def grow_empty)
next
  case (Cons call calls)
  obtain e rightNow where call: "call = (e, rightNow)" by (cases call)
  let ?es = "map fst calls"
  from Cons.prems(1) call obtain w1 where
    a: "add c e rightNow w = Inr w1" and s: "add_seq c calls w1 = Inr w'"
    by (auto split: sum.splits)
  from Cons.prems(3) call have here: "unowned w e \<and> \<not> lineString (ents w e)
      \<longrightarrow> lonlat (ents w e) \<noteq> None"
    and rest: "\<forall>r \<in> fst ` set calls.
      unowned w r \<and> \<not> lineString (ents w r) \<longrightarrow> lonlat (ents w r) \<noteq> None"
    by simp_all
  have split: "map fst (call # calls) = e # ?es" using call by simp
  consider (owned) "\<not> unowned w e"
    | (line) "unowned w e" "lineString (ents w e)"
    | (point) "unowned w e" "\<not> lineString (ents w e)"
    by blast
  then show ?case
  proof cases
    case owned
    with a have w1: "w1 = w" by (simp add: add_not_unowned)
    have "added_positions w (e # ?es) = added_positions w ?es"
      using owned by (auto simp: added_positions_def)
    moreover have "extent w' = grow (added_positions w ?es) (extent w)"
      using Cons.IH [of w] s w1 Cons.prems(2) rest by simp
    ultimately show ?thesis unfolding split by simp
  next
    case line
    note k = add_unowned_line [OF line a]
    have pl: "planet w1 \<noteq> None" using k(2) Cons.prems(2) by simp
    have un: "unowned w1 r = (r \<noteq> e \<and> unowned w r)" for r
      using k(5) [of r] k(6) line(1) by (cases "r = e") auto
    have h: "\<forall>r \<in> fst ` set calls.
        unowned w1 r \<and> \<not> lineString (ents w1 r) \<longrightarrow> lonlat (ents w1 r) \<noteq> None"
      using rest by (auto simp: un k(3,4))
    have "added_positions w (e # ?es) = added_positions w1 ?es"
      using line(2) by (auto simp: added_positions_def un k(3,4))
    moreover have "extent w' = grow (added_positions w1 ?es) (extent w1)"
      by (rule Cons.IH [OF s pl h])
    ultimately show ?thesis unfolding split using k(1) by simp
  next
    case point
    with here obtain p where p: "lonlat (ents w e) = Some p" by auto
    note k = add_unowned_point [OF f point Cons.prems(2) p a]
    have pl: "planet w1 \<noteq> None" using k(2) Cons.prems(2) by simp
    have un: "unowned w1 r = (r \<noteq> e \<and> unowned w r)" for r
      using k(5) [of r] k(6) point(1) by (cases "r = e") auto
    have h: "\<forall>r \<in> fst ` set calls.
        unowned w1 r \<and> \<not> lineString (ents w1 r) \<longrightarrow> lonlat (ents w1 r) \<noteq> None"
      using rest by (auto simp: un k(3,4))
    have "added_positions w (e # ?es) = insert p (added_positions w1 ?es)"
    proof (rule set_eqI)
      fix x
      show "x \<in> added_positions w (e # ?es) \<longleftrightarrow> x \<in> insert p (added_positions w1 ?es)"
      proof (cases "x = p")
        case True
        with point p show ?thesis by (auto simp: added_positions_def)
      next
        case False
        with p have "lonlat (ents w r) = Some x \<Longrightarrow> r \<noteq> e" for r by auto
        with False p show ?thesis
          by (auto simp: added_positions_def un k(3,4))
      qed
    qed
    moreover have "extent w' = grow (added_positions w1 ?es) (extent w1)"
      by (rule Cons.IH [OF s pl h])
    ultimately show ?thesis
      unfolding split using k(1) by (simp add: grow_insert [OF finite_added_positions])
  qed
qed

lemma add_within:
  assumes f: "insertEntity_frame c" and a: "add c e rightNow w = Inr w'"
  shows "extent_within (extent w) (extent w')"
proof -
  consider (owned) "\<not> unowned w e"
    | (line) "unowned w e" "lineString (ents w e)"
    | (noplanet) "unowned w e" "\<not> lineString (ents w e)" "planet w = None"
    | (point) "unowned w e" "\<not> lineString (ents w e)" "planet w \<noteq> None"
    by blast
  then show ?thesis
  proof cases
    case owned
    with a show ?thesis by (simp add: add_not_unowned extent_within_def)
  next
    case line
    from add_unowned_line(1) [OF line a] show ?thesis by (simp add: extent_within_def)
  next
    case noplanet
    with a show ?thesis
      by (auto simp: add_def unowned_def Let_def extent_within_def)
  next
    case point
    show ?thesis
    proof (cases "lonlat (ents w e)")
      case None
      let ?w2 = "w\<lparr>ents := (ents w)(e := (ents w e)\<lparr>vectorLayer := Some (layer_id w),
                   vectorLayerIndex := int (length (entities w))\<rparr>),
               entities := entities w @ [e]\<rparr>"
      let ?p = "cartesianToLonLat c (cartesian (ents ?w2 e))"
      let ?w3 = "?w2\<lparr>ents := (ents ?w2)(e := (ents ?w2 e)\<lparr>lonlat := Some ?p\<rparr>)\<rparr>"
      have "lonlat (ents ?w3 e) = Some ?p" by simp
      then have fit: "fitExtent e ?w3 = Inr (?w3\<lparr>extent := grow {?p} (extent ?w3)\<rparr>)"
        by (rule fitExtent_closed)
      from a point None fit obtain t w5 where
        i: "insertEntity c t e rightNow (?w3\<lparr>extent := grow {?p} (extent ?w3)\<rparr>) = Inr w5"
        and w': "w' = w5\<lparr>events := events w5 @ [(entityadd, e)]\<rparr>"
        by (auto simp: add_def unowned_def Let_def split: if_splits option.splits sum.splits)
      from f i have "extent w5 = grow {?p} (extent w)"
        unfolding insertEntity_frame_def by fastforce
      with w' grow_within [of "{?p}" "extent w"] show ?thesis by simp
    next
      case (Some p)
      from add_unowned_point(1) [OF f point Some a] grow_within [of "{p}" "extent w"]
      show ?thesis by simp
    qed
  qed
qed

lemma Min_insert_upper:
  fixes b :: real
  assumes "finite A" and "A \<noteq> {}" and "\<forall>a \<in> A. a \<le> b"
  shows "Min (insert b A) = Min A"
proof -
  from assms(1,2) have "Min A \<in> A" by (rule Min_in)
  with assms(3) have "Min A \<le> b" by blast
  with assms(1,2) show ?thesis by (simp add: min_absorb2)
qed

lemma Max_insert_lower:
  fixes b :: real
  assumes "finite A" and "A \<noteq> {}" and "\<forall>a \<in> A. b \<le> a"
  shows "Max (insert b A) = Max A"
proof -
  from assms(1,2) have "Max A \<in> A" by (rule Max_in)
  with assms(3) have "b \<le> Max A" by blast
  with assms(1,2) show ?thesis by (simp add: max_absorb2)
qed

lemma grow_fresh:
  assumes "finite S" "S \<noteq> {}"
    and "\<forall>p \<in> S. - 180 \<le> lon p \<and> lon p \<le> 180 \<and> - 90 \<le> lat p \<and> lat p \<le> 90"
  shows "grow S \<lparr>southWest = \<lparr>lon = 180, lat = 90\<rparr>, northEast = \<lparr>lon = - 180, lat = - 90\<rparr>\<rparr>
       = \<lparr>southWest = \<lparr>lon = Min (lon ` S), lat = Min (lat ` S)\<rparr>,
          northEast = \<lparr>lon = Max (lon ` S), lat = Max (lat ` S)\<rparr>\<rparr>"
proof -
  from assms have "Min (insert 180 (lon ` S)) = Min (lon ` S)"
    by (intro Min_insert_upper) auto
  moreover from assms have "Min (insert 90 (lat ` S)) = Min (lat ` S)"
    by (intro Min_insert_upper) auto
  moreover from assms have "Max (insert (- 180) (lon ` S)) = Max (lon ` S)"
    by (intro Max_insert_lower) auto
  moreover from assms have "Max (insert (- 90) (lat ` S)) = Max (lat ` S)"
    by (intro Max_insert_lower) auto
  ultimately show ?thesis by (simp add: grow_def)
qed

lemma root_ops_insert_frame: "insertEntity_frame root_ops"
  by (auto simp: insertEntity_frame_def root_ops_def root_insertEntity_def Let_def
      EntityCollection_add_def queueDeferredNode_def execDeferredNode_def
      split: option.splits if_splits)

lemma add_seq_points_returns:
  "\<exists>w'. add_seq root_ops [(2, True), (1, False), (4, False), (2, True)] attached_layer = Inr w'"
  by (simp add: add_def fitExtent_def root_ops_def root_insertEntity_def Let_def
      EntityCollection_add_def queueDeferredNode_def execDeferredNode_def
      attached_layer_def new_layer_def some_entities_def some_planet_def)

lemma added_positions_points:
  "added_positions attached_layer [2, 1, 4, 2] = {\<lparr>lon = 10, lat = 0\<rparr>, \<lparr>lon = 20, lat = 88\<rparr>}"
  by (auto simp: added_positions_def unowned_def attached_layer_def new_layer_def some_entities_def)

text \<open>
  C8.  On a layer with a planet whose extent is the one \<^verbatim>\<open>_buildEntityCollectionsTree\<close>
  sets, after any sequence of \<^verbatim>\<open>add\<close> calls that return, each call with its own entity
  and \<^verbatim>\<open>rightNow\<close> flag, the extent is the bounding rectangle of the positions of the
  entities added that are not line strings: its south-west corner is their least
  longitude and latitude, its north-east corner their greatest.  The positions are
  geodetic, longitude in \<open>[-180, 180]\<close> and latitude in \<open>[-90, 90]\<close>, and there is at least
  one.  And every \<^verbatim>\<open>add\<close> that returns, from any state, leaves the extent it found
  within the extent it leaves.
\<close>

theorem extent_is_bounding_rectangle:
  assumes "insertEntity_frame c"
    and "planet w \<noteq> None"
    and "extent w = \<lparr>southWest = \<lparr>lon = 180, lat = 90\<rparr>,
                     northEast = \<lparr>lon = - 180, lat = - 90\<rparr>\<rparr>"
    and "\<forall>e \<in> fst ` set calls.
           unowned w e \<and> \<not> lineString (ents w e) \<longrightarrow> lonlat (ents w e) \<noteq> None"
    and "\<forall>p \<in> added_positions w (map fst calls).
           - 180 \<le> lon p \<and> lon p \<le> 180 \<and> - 90 \<le> lat p \<and> lat p \<le> 90"
    and "added_positions w (map fst calls) \<noteq> {}"
    and "add_seq c calls w = Inr w'"
  shows "extent w' =
           \<lparr>southWest = \<lparr>lon = Min (lon ` added_positions w (map fst calls)),
                         lat = Min (lat ` added_positions w (map fst calls))\<rparr>,
            northEast = \<lparr>lon = Max (lon ` added_positions w (map fst calls)),
                         lat = Max (lat ` added_positions w (map fst calls))\<rparr>\<rparr> \<and>
         (add c e0 rightNow0 v = Inr v' \<longrightarrow> extent_within (extent v) (extent v'))"
proof
  let ?S = "added_positions w (map fst calls)"
  have "extent w' = grow ?S (extent w)"
    using assms(7,2,4) by (rule add_seq_extent [OF assms(1)])
  also have "\<dots> = \<lparr>southWest = \<lparr>lon = Min (lon ` ?S), lat = Min (lat ` ?S)\<rparr>,
                    northEast = \<lparr>lon = Max (lon ` ?S), lat = Max (lat ` ?S)\<rparr>\<rparr>"
    unfolding assms(3) using finite_added_positions assms(6,5) by (rule grow_fresh)
  finally show "extent w' =
           \<lparr>southWest = \<lparr>lon = Min (lon ` ?S), lat = Min (lat ` ?S)\<rparr>,
            northEast = \<lparr>lon = Max (lon ` ?S), lat = Max (lat ` ?S)\<rparr>\<rparr>" .
  show "add c e0 rightNow0 v = Inr v' \<longrightarrow> extent_within (extent v) (extent v')"
    using add_within [OF assms(1)] by blast
qed

theorem extent_is_bounding_rectangle_witness:
  "insertEntity_frame root_ops \<and> planet attached_layer \<noteq> None \<and>
   extent attached_layer = \<lparr>southWest = \<lparr>lon = 180, lat = 90\<rparr>,
                            northEast = \<lparr>lon = - 180, lat = - 90\<rparr>\<rparr> \<and>
   added_positions attached_layer [2, 1, 4, 2] = {\<lparr>lon = 10, lat = 0\<rparr>, \<lparr>lon = 20, lat = 88\<rparr>} \<and>
   add_seq root_ops [(2, True), (1, False), (4, False), (2, True)] attached_layer
     = Inr (projr (add_seq root_ops [(2, True), (1, False), (4, False), (2, True)]
                     attached_layer)) \<and>
   extent (projr (add_seq root_ops [(2, True), (1, False), (4, False), (2, True)]
                    attached_layer))
     = \<lparr>southWest = \<lparr>lon = 10, lat = 0\<rparr>, northEast = \<lparr>lon = 20, lat = 88\<rparr>\<rparr>"
proof -
  let ?w = attached_layer
  let ?calls = "[(2, True), (1, False), (4, False), (2 :: nat, True)]"
  have es: "map fst ?calls = [2, 1, 4, 2]" by simp
  have h2: "planet ?w \<noteq> None"
    and h3: "extent ?w = \<lparr>southWest = \<lparr>lon = 180, lat = 90\<rparr>,
                          northEast = \<lparr>lon = - 180, lat = - 90\<rparr>\<rparr>"
    by (simp_all add: attached_layer_def new_layer_def)
  have h4: "\<forall>e \<in> fst ` set ?calls.
      unowned ?w e \<and> \<not> lineString (ents ?w e) \<longrightarrow> lonlat (ents ?w e) \<noteq> None"
    by (simp add: attached_layer_def new_layer_def some_entities_def)
  have h5: "\<forall>p \<in> added_positions ?w (map fst ?calls).
           - 180 \<le> lon p \<and> lon p \<le> 180 \<and> - 90 \<le> lat p \<and> lat p \<le> 90"
    and h6: "added_positions ?w (map fst ?calls) \<noteq> {}"
    unfolding es added_positions_points by simp_all
  from add_seq_points_returns obtain w' where w': "add_seq root_ops ?calls ?w = Inr w'"
    by blast
  then have h7: "add_seq root_ops ?calls ?w = Inr (projr (add_seq root_ops ?calls ?w))"
    by simp
  from extent_is_bounding_rectangle [OF root_ops_insert_frame h2 h3 h4 h5 h6 h7]
  have "extent (projr (add_seq root_ops ?calls ?w))
     = \<lparr>southWest = \<lparr>lon = 10, lat = 0\<rparr>, northEast = \<lparr>lon = 20, lat = 88\<rparr>\<rparr>"
    unfolding es added_positions_points by simp
  with root_ops_insert_frame h2 h3 added_positions_points h7 show ?thesis by blast
qed

section \<open>Removing an entity that waits in a deferred buffer\<close>

inductive_cases chain_NilE: "chain ns node []"
inductive_cases chain_ConsE: "chain ns node (a # path)"
inductive_cases chain_SomeE: "chain ns (Some n) path"

lemma chain_cong:
  assumes "chain ns node path" and "\<And>r. parentNode (ns' r) = parentNode (ns r)"
  shows "chain ns' node path"
  using assms(1)
proof (induction rule: chain.induct)
  case root
  show ?case by (rule chain.root)
next
  case (up n path)
  then show ?case using assms(2) [of n] by (auto intro: chain.up)
qed

lemma chain_unique: "chain ns node p \<Longrightarrow> chain ns node q \<Longrightarrow> p = q"
proof (induction arbitrary: q rule: chain.induct)
  case root
  then show ?case by (auto elim: chain.cases)
next
  case (up n path)
  from up.prems obtain q' where "q = n # q'" "chain ns (parentNode (ns n)) q'"
    by (auto elim: chain_SomeE)
  with up.IH show ?case by simp
qed

lemma chain_suffix:
  "chain ns node path \<Longrightarrow> m \<in> set path \<Longrightarrow>
     \<exists>suf. chain ns (Some m) (m # suf) \<and> length (m # suf) \<le> length path"
proof (induction rule: chain.induct)
  case root
  then show ?case by simp
next
  case (up n path)
  show ?case
  proof (cases "m = n")
    case True
    with up.hyps show ?thesis by (auto intro: chain.up)
  next
    case False
    with up.prems have "m \<in> set path" by simp
    with up.IH obtain suf where "chain ns (Some m) (m # suf)" "length (m # suf) \<le> length path"
      by blast
    then show ?thesis by (intro exI [of _ suf]) simp
  qed
qed

lemma chain_head_fresh:
  assumes "chain ns (Some n) (n # path)"
  shows "n \<notin> set path"
proof
  assume "n \<in> set path"
  from assms have "chain ns (parentNode (ns n)) path" by (auto elim: chain_SomeE)
  from chain_suffix [OF this \<open>n \<in> set path\<close>] obtain suf where
    s: "chain ns (Some n) (n # suf)" and l: "length (n # suf) \<le> length path" by blast
  from chain_unique [OF s assms] l show False by simp
qed

lemma decrementCounts_chain:
  "chain ns node path \<Longrightarrow>
   decrementCounts node ns =
     Some (\<lambda>r. if r \<in> set path then (ns r)\<lparr>count := count (ns r) - 1\<rparr> else ns r)"
proof (induction path arbitrary: ns node)
  case Nil
  then have "node = None" by (auto elim: chain_NilE)
  then show ?case by (simp add: decrementCounts.simps)
next
  case (Cons a path)
  from Cons.prems have node: "node = Some a" and c: "chain ns (parentNode (ns a)) path"
    by (auto elim: chain_ConsE)
  let ?ns' = "ns(a := (ns a)\<lparr>count := count (ns a) - 1\<rparr>)"
  from Cons.prems node have fresh: "a \<notin> set path" by (simp add: chain_head_fresh)
  have "chain ?ns' (parentNode (ns a)) path"
    by (rule chain_cong [OF c]) simp
  from Cons.IH [OF this]
  have "decrementCounts (parentNode (ns a)) ?ns' =
     Some (\<lambda>r. if r \<in> set path then (?ns' r)\<lparr>count := count (?ns' r) - 1\<rparr> else ?ns' r)" .
  also have "(\<lambda>r. if r \<in> set path then (?ns' r)\<lparr>count := count (?ns' r) - 1\<rparr> else ?ns' r)
     = (\<lambda>r. if r \<in> set (a # path) then (ns r)\<lparr>count := count (ns r) - 1\<rparr> else ns r)"
    using fresh by (auto simp: fun_eq_iff)
  finally have rest: "decrementCounts (parentNode (ns a)) ?ns' =
     Some (\<lambda>r. if r \<in> set (a # path) then (ns r)\<lparr>count := count (ns r) - 1\<rparr> else ns r)" .
  have "decrementCounts (Some a) ns = decrementCounts (parentNode (ns a)) ?ns'"
    by (subst decrementCounts.simps) (simp only: option.case)
  with rest show ?case unfolding node by (simp only:)
qed

lemma reindexFrom_shape:
  "reindexFrom i w = w\<lparr>ents := ents (reindexFrom i w)\<rparr> \<and>
   (\<forall>r. \<exists>k. ents (reindexFrom i w) r = (ents w r)\<lparr>vectorLayerIndex := k\<rparr>)"
proof (induction i w rule: reindexFrom.induct)
  case (1 i w)
  show ?case
  proof (cases "i < length (entities w)")
    case False
    then have eq: "reindexFrom i w = w"
      by (subst reindexFrom.simps) simp
    have "\<exists>k. ents w r = (ents w r)\<lparr>vectorLayerIndex := k\<rparr>" for r
      by (rule exI [of _ "vectorLayerIndex (ents w r)"]) simp
    then show ?thesis unfolding eq by simp
  next
    case True
    let ?w' = "w\<lparr>ents := (ents w)(entities w ! i :=
                (ents w (entities w ! i))\<lparr>vectorLayerIndex := int i\<rparr>)\<rparr>"
    have eq: "reindexFrom i w = reindexFrom (Suc i) ?w'"
      using True by (subst reindexFrom.simps) simp
    from "1.IH" [OF True] have
      a: "reindexFrom (Suc i) ?w' = ?w'\<lparr>ents := ents (reindexFrom (Suc i) ?w')\<rparr>"
      and b: "\<forall>r. \<exists>k. ents (reindexFrom (Suc i) ?w') r = (ents ?w' r)\<lparr>vectorLayerIndex := k\<rparr>"
      by blast+
    have "reindexFrom i w = w\<lparr>ents := ents (reindexFrom i w)\<rparr>"
      unfolding eq by (subst a) simp
    moreover have "\<exists>k. ents (reindexFrom i w) r = (ents w r)\<lparr>vectorLayerIndex := k\<rparr>" for r
    proof -
      from b obtain k where "ents (reindexFrom (Suc i) ?w') r = (ents ?w' r)\<lparr>vectorLayerIndex := k\<rparr>"
        by blast
      then show ?thesis unfolding eq by (cases "r = entities w ! i") auto
    qed
    ultimately show ?thesis by blast
  qed
qed

lemma scanDeferred_last:
  assumes "entity_id (es e) = tid" and "\<forall>x \<in> set post. entity_id (es x) \<noteq> tid"
  shows "j \<le> length post \<Longrightarrow>
     scanDeferred es tid (pre @ e # post) (Suc (length pre + j)) = Some (length pre)"
proof (induction j)
  case 0
  with assms(1) show ?case by simp
next
  case (Suc j)
  then have "(pre @ e # post) ! (Suc (length pre + j)) = post ! j"
    by (simp add: nth_append)
  moreover from Suc.prems have "post ! j \<in> set post" by simp
  ultimately show ?case using Suc assms(2) by auto
qed

lemma splice1_middle: "splice1 (int (length pre)) (pre @ e # post) = pre @ post"
  by (simp add: splice1_def Let_def)

lemma fold_add_colls:
  "set (colls (fold (EntityCollection_add col) es w) col) \<subseteq> set (colls w col) \<union> set es \<and>
   nodes (fold (EntityCollection_add col) es w) = nodes w"
proof (induction es arbitrary: w)
  case Nil
  show ?case by simp
next
  case (Cons x es)
  have "set (colls (EntityCollection_add col x w) col) \<subseteq> insert x (set (colls w col))"
    "nodes (EntityCollection_add col x w) = nodes w"
    by (auto simp: EntityCollection_add_def)
  with Cons [of "EntityCollection_add col x w"] show ?case by auto
qed

lemma root_applyCollection_from_buffer:
  assumes "root_applyCollection n w = Inr w'"
  shows "\<exists>col. entityCollection (nodes w' n) = Some col \<and>
           set (colls w' col) \<subseteq> set (deferredEntities (nodes w n)) \<and>
           deferredEntities (nodes w' n) = []"
proof -
  let ?col = "next_ref w"
  let ?w1 = "w\<lparr>next_ref := next_ref w + 1, colls := (colls w)(?col := [])\<rparr>"
  let ?w2 = "fold (EntityCollection_add ?col) (deferredEntities (nodes w n)) ?w1"
  from assms have w': "w' = ?w2\<lparr>nodes := (nodes ?w2)(n := (nodes ?w2 n)
                 \<lparr>deferredEntities := [], entityCollection := Some ?col\<rparr>)\<rparr>"
    by (simp add: root_applyCollection_def Let_def)
  from fold_add_colls [of ?col "deferredEntities (nodes w n)" ?w1]
  have "set (colls ?w2 ?col) \<subseteq> set (deferredEntities (nodes w n))" by simp
  then show ?thesis unfolding w' by simp
qed

text \<open>
  C7.  An entity \<open>e\<close> that this layer owns, that is in no collection and whose node \<open>n\<close>
  holds it in its deferred buffer, as the only element with its id: \<^verbatim>\<open>removeEntity\<close>
  returns; the buffer of \<open>n\<close> is the old one without that element, so it holds no
  element with the id of \<open>e\<close> and a collection built from it later does not hold \<open>e\<close>;
  \<open>count\<close> is one less on \<open>n\<close> and on every ancestor of \<open>n\<close> and unchanged on every
  other node; no other buffer changes.  The stored index of an owned entity is not
  negative, and the parent chain of \<open>n\<close> ends.
\<close>

theorem removeEntity_deferred:
  assumes own: "vectorLayer (ents w e) = Some (layer_id w)"
    and idx: "0 \<le> vectorLayerIndex (ents w e)"
    and nocoll: "entity_entityCollection (ents w e) = None"
    and ptr: "nodePtr (ents w e) = Some n"
    and buf: "deferredEntities (nodes w n) = pre @ e # post"
    and ids: "\<forall>x \<in> set pre \<union> set post. entity_id (ents w x) \<noteq> entity_id (ents w e)"
    and anc: "chain (nodes w) (Some n) path"
  shows "\<exists>w'. removeEntity e w = Some (Inr w') \<and>
           deferredEntities (nodes w' n) = pre @ post \<and>
           (\<forall>x \<in> set (deferredEntities (nodes w' n)).
               entity_id (ents w' x) \<noteq> entity_id (ents w' e)) \<and>
           (\<forall>r. count (nodes w' r) =
               (if r \<in> set path then count (nodes w r) - 1 else count (nodes w r))) \<and>
           (\<forall>r. r \<noteq> n \<longrightarrow> deferredEntities (nodes w' r) = deferredEntities (nodes w r)) \<and>
           nodePtr (ents w' e) = None \<and> vectorLayer (ents w' e) = None"
proof -
  let ?idx = "vectorLayerIndex (ents w e)"
  let ?w1 = "w\<lparr>entities := splice1 ?idx (entities w)\<rparr>"
  let ?w2 = "reindexFrom (nat ?idx) ?w1"
  have re: "reindexEntitiesArray ?idx ?w1 = Inr ?w2"
    using idx by (simp add: reindexEntitiesArray_def)
  from reindexFrom_shape [of "nat ?idx" ?w1]
  have w2: "?w2 = ?w1\<lparr>ents := ents ?w2\<rparr>"
    and e2: "\<And>r. \<exists>k. ents ?w2 r = (ents w r)\<lparr>vectorLayerIndex := k\<rparr>"
    by simp_all
  define E2 where "E2 = ents ?w2"
  have w2': "?w2 = w\<lparr>entities := splice1 ?idx (entities w), ents := E2\<rparr>"
    using w2 unfolding E2_def by simp
  have f: "entity_id (E2 r) = entity_id (ents w r)"
    "entity_entityCollection (E2 r) = entity_entityCollection (ents w r)"
    "nodePtr (E2 r) = nodePtr (ents w r)" for r
    using e2 [of r] unfolding E2_def by auto
  let ?E3 = "E2(e := (E2 e)\<lparr>vectorLayer := None, vectorLayerIndex := - 1\<rparr>)"
  have f3: "entity_id (?E3 r) = entity_id (ents w r)" for r
    using f(1) by simp
  have a1: "entity_id (?E3 e) = entity_id (ents w e)" by (rule f3)
  have a2: "\<forall>x \<in> set post. entity_id (?E3 x) \<noteq> entity_id (ents w e)"
  proof
    fix x assume "x \<in> set post"
    with ids have "entity_id (ents w x) \<noteq> entity_id (ents w e)" by blast
    then show "entity_id (?E3 x) \<noteq> entity_id (ents w e)" unfolding f3 .
  qed
  have len: "length (pre @ e # post) = Suc (length pre + length post)" by simp
  have scan: "scanDeferred ?E3 (entity_id (ents w e)) (pre @ e # post) (length (pre @ e # post))
      = Some (length pre)"
    unfolding len by (rule scanDeferred_last [OF a1 a2 le_refl])
  let ?ns1 = "(nodes w)(n := (nodes w n)\<lparr>deferredEntities := pre @ post\<rparr>)"
  have "chain ?ns1 (Some n) path"
    by (rule chain_cong [OF anc]) simp
  from decrementCounts_chain [OF this]
  have dec: "decrementCounts (Some n) ?ns1 =
     Some (\<lambda>r. if r \<in> set path then (?ns1 r)\<lparr>count := count (?ns1 r) - 1\<rparr> else ?ns1 r)" .
  let ?ns = "\<lambda>r. if r \<in> set path then (?ns1 r)\<lparr>count := count (?ns1 r) - 1\<rparr> else ?ns1 r"
  let ?w' = "w\<lparr>entities := splice1 ?idx (entities w),
               ents := ?E3(e := (?E3 e)\<lparr>nodePtr := None\<rparr>),
               nodes := ?ns,
               events := events w @ [(entityremove, e)]\<rparr>"
  define defs where "defs = pre @ e # post"
  have buf': "deferredEntities (nodes w n) = defs"
    and ne: "defs \<noteq> []"
    and scan': "scanDeferred ?E3 (entity_id (ents w e)) defs (length defs) = Some (length pre)"
    and spl: "splice1 (int (length pre)) defs = pre @ post"
    unfolding defs_def using buf scan by (simp_all only: splice1_middle) simp
  have r: "removeEntity e w = Some (Inr ?w')"
    unfolding removeEntity_def
    by (simp add: own re w2' Let_def f nocoll ptr buf' ne scan' spl dec)
  have "deferredEntities (nodes ?w' n) = pre @ post" by simp
  moreover have "\<forall>x \<in> set (deferredEntities (nodes ?w' n)).
               entity_id (ents ?w' x) \<noteq> entity_id (ents ?w' e)"
    using ids by (auto simp: f)
  moreover have "\<forall>r. count (nodes ?w' r) =
               (if r \<in> set path then count (nodes w r) - 1 else count (nodes w r))"
    by simp
  moreover have "\<forall>r. r \<noteq> n \<longrightarrow> deferredEntities (nodes ?w' r) = deferredEntities (nodes w r)"
    by simp
  moreover have "nodePtr (ents ?w' e) = None \<and> vectorLayer (ents ?w' e) = None"
    by simp
  ultimately show ?thesis using r by blast
qed

theorem removeEntity_deferred_witness:
  "vectorLayer (ents deferred_layer 2) = Some (layer_id deferred_layer) \<and>
   0 \<le> vectorLayerIndex (ents deferred_layer 2) \<and>
   entity_entityCollection (ents deferred_layer 2) = None \<and>
   nodePtr (ents deferred_layer 2) = Some 11 \<and>
   deferredEntities (nodes deferred_layer 11) = [] @ 2 # [4] \<and>
   chain (nodes deferred_layer) (Some 11) [11, 1] \<and>
   (case removeEntity 2 deferred_layer of
      Some (Inr w') \<Rightarrow>
        deferredEntities (nodes w' 11) = [4] \<and> count (nodes w' 11) = 1 \<and>
        count (nodes w' 1) = 1 \<and> count (nodes w' 2) = 0 \<and> nodePtr (ents w' 2) = None
    | _ \<Rightarrow> False)"
proof -
  have h1: "vectorLayer (ents deferred_layer 2) = Some (layer_id deferred_layer)"
    and h2: "0 \<le> vectorLayerIndex (ents deferred_layer 2)"
    and h3: "entity_entityCollection (ents deferred_layer 2) = None"
    and h4: "nodePtr (ents deferred_layer 2) = Some 11"
    and h5: "deferredEntities (nodes deferred_layer 11) = [] @ 2 # [4]"
    by (simp_all add: deferred_layer_def attached_layer_def new_layer_def some_entities_def)
  have h6: "\<forall>x \<in> set [] \<union> set [4].
      entity_id (ents deferred_layer x) \<noteq> entity_id (ents deferred_layer 2)"
    by (simp add: deferred_layer_def attached_layer_def new_layer_def some_entities_def)
  have p1: "parentNode (nodes deferred_layer 1) = None"
    and p11: "parentNode (nodes deferred_layer 11) = Some 1"
    and c: "count (nodes deferred_layer 11) = 2" "count (nodes deferred_layer 1) = 2"
      "count (nodes deferred_layer 2) = 0"
    by (simp_all add: deferred_layer_def attached_layer_def new_layer_def)
  have "chain (nodes deferred_layer) (parentNode (nodes deferred_layer 1)) []"
    unfolding p1 by (rule chain.root)
  then have "chain (nodes deferred_layer) (Some 1) [1]" by (rule chain.up)
  then have "chain (nodes deferred_layer) (parentNode (nodes deferred_layer 11)) [1]"
    unfolding p11 .
  then have h7: "chain (nodes deferred_layer) (Some 11) [11, 1]" by (rule chain.up)
  from removeEntity_deferred [OF h1 h2 h3 h4 h5 h6 h7] obtain w' where
    r: "removeEntity 2 deferred_layer = Some (Inr w')"
    and b: "deferredEntities (nodes w' 11) = [] @ [4]"
    and k: "\<forall>r. count (nodes w' r) =
               (if r \<in> set [11, 1] then count (nodes deferred_layer r) - 1
                else count (nodes deferred_layer r))"
    and n: "nodePtr (ents w' 2) = None"
    by blast
  from k c have "count (nodes w' 11) = 1" "count (nodes w' 1) = 1" "count (nodes w' 2) = 0"
    by simp_all
  with r b n h1 h2 h3 h4 h5 h7 show ?thesis by simp
qed

end
